theory Spec2Isabelle
  imports Complex_Main
begin

section \<open>TracFit: the repetition counters of \<^verbatim>\<open>tracfit.ino\<close>\<close>

text \<open>
  The sketch is one sequential thread that reads an accelerometer, compares the three
  axis readings and drives ten pixels and a speaker. The embedding keeps the sketch's
  global variables in a record, threads the record through every function, and makes the
  two external sides explicit:
  \<^item> input: the readings the accelerometer will deliver, one triple \<open>(x, y, z)\<close> per
    sampling tick, as a list. The code only compares readings with \<open><\<close>, \<open>>\<close> and
    \<open>\<le>\<close>, so a reading is a \<open>real\<close> (the sensor delivers finite numbers);
  \<^item> output: the calls made on the board library, appended to the field \<open>trace\<close> in the
    order they are made.
  A function that asks for a reading when the list is empty has not returned: its
  outcome is \<open>Running\<close> with the state reached so far. On an endless stream of readings
  a call of the sketch never returns exactly when its outcome is \<open>Running\<close> on every
  finite prefix of the stream.
\<close>

subsection \<open>Constants and global variables\<close>

definition DEBOUNCE :: nat where "DEBOUNCE = 100"
definition REPS :: int where "REPS = 10"
definition GREEN :: nat where "GREEN = 0xFDFE01"
definition BLUE :: nat where "BLUE = 0x00F188"
definition PURPLE :: nat where "PURPLE = 0x0101FF"
definition PINK :: nat where "PINK = 0xFC0839"
definition WHITE :: nat where "WHITE = 0xFFFFFF"
definition HALF :: nat where "HALF = 1100"
definition EIGHTH :: nat where "EIGHTH = 275"
definition EIGHTH_TRIPLE :: nat where "EIGHTH_TRIPLE = 183"
definition SIXTEENTH :: nat where "SIXTEENTH = EIGHTH div 2"

type_synonym sample = "real \<times> real \<times> real"

datatype call =
    Begin
  | SetBrightness nat
  | ClearPixels
  | SetPixelColor int nat
  | PlayTone nat nat
  | Delay nat

record state =
  finishedJumpJacks :: bool
  finishedSquats :: bool
  finishedSitUps :: bool
  finishedPushUps :: bool
  numOfJumpJacks :: int
  numOfSquats :: int
  numOfSitUps :: int
  numOfPushUps :: int
  X :: real
  Y :: real
  Z :: real
  trace :: "call list"

text \<open>The state at power-on: the initialisers of the globals, nothing called yet.\<close>

definition powerOn :: state where
  "powerOn = \<lparr> finishedJumpJacks = False, finishedSquats = False,
               finishedSitUps = False, finishedPushUps = False,
               numOfJumpJacks = 0, numOfSquats = 0, numOfSitUps = 0, numOfPushUps = 0,
               X = 0, Y = 0, Z = 0, trace = [] \<rparr>"

datatype outcome = Returned state "sample list" | Running state

fun stateOf :: "outcome \<Rightarrow> state" where
  "stateOf (Returned st rest) = st"
| "stateOf (Running st) = st"

fun hasReturned :: "outcome \<Rightarrow> bool" where
  "hasReturned (Returned st rest) = True"
| "hasReturned (Running st) = False"

text \<open>Sequencing: what follows a blocking call runs only once that call has returned.\<close>

fun andThen :: "outcome \<Rightarrow> (state \<Rightarrow> state) \<Rightarrow> outcome" where
  "andThen (Returned st rest) f = Returned (f st) rest"
| "andThen (Running st) f = Running st"

subsection \<open>The board library, as calls on the trace\<close>

definition hw :: "call \<Rightarrow> state \<Rightarrow> state" where
  "hw c st = st\<lparr>trace := trace st @ [c]\<rparr>"

text \<open>\<^verbatim>\<open>motionX()\<close>, \<open>motionY()\<close>, \<open>motionZ()\<close> store one reading in the globals.\<close>

definition readMotion :: "sample \<Rightarrow> state \<Rightarrow> state" where
  "readMotion s st = st\<lparr>X := fst s, Y := fst (snd s), Z := snd (snd s)\<rparr>"

definition setAllLeds :: "nat \<Rightarrow> state \<Rightarrow> state" where
  "setAllLeds color st = fold (\<lambda>i. hw (SetPixelColor i color)) [0..9] st"

definition blinkAnimLed :: "nat \<Rightarrow> state \<Rightarrow> state" where
  "blinkAnimLed color st =
     fold (\<lambda>i st.
        let st = setAllLeds color st;
            st = hw (PlayTone 440 100) st;
            st = hw (Delay DEBOUNCE) st;
            st = hw ClearPixels st;
            st = hw (Delay DEBOUNCE) st
        in st) [0..(1::int)] (hw ClearPixels st)"

definition durations :: "nat list" where
  "durations = [EIGHTH_TRIPLE div 2, EIGHTH_TRIPLE div 2, EIGHTH_TRIPLE div 2,
                EIGHTH div 2, SIXTEENTH div 2, HALF div 2]"

definition notes' :: "nat list" where
  "notes' = [392, 523, 659, 784, 659, 784]"

definition victorySong :: "state \<Rightarrow> state" where
  "victorySong st = fold (\<lambda>i. hw (PlayTone (notes' ! i) (durations ! i))) [0..<6] st"

definition showMainMenu :: "state \<Rightarrow> state" where
  "showMainMenu st =
     (let st = hw ClearPixels st;
          st = (if \<not> finishedJumpJacks st
                then hw (SetPixelColor 1 GREEN) (hw (SetPixelColor 0 GREEN) st) else st);
          st = (if \<not> finishedSquats st
                then hw (SetPixelColor 4 BLUE) (hw (SetPixelColor 3 BLUE) st) else st);
          st = (if \<not> finishedSitUps st
                then hw (SetPixelColor 6 PURPLE) (hw (SetPixelColor 5 PURPLE) st) else st);
          st = (if \<not> finishedPushUps st
                then hw (SetPixelColor 9 PINK) (hw (SetPixelColor 8 PINK) st) else st)
      in st)"

subsection \<open>The four repetition detectors\<close>

text \<open>
  Each detector is a \<^verbatim>\<open>while\<close> loop over the readings. Its body is a definition of
  its own (one sampling tick: the local variable and the globals before, the same
  after); the loop is the recursion over the list of readings, with the loop guard
  tested before each reading is taken.
\<close>

definition sitUpsBody :: "sample \<Rightarrow> bool \<Rightarrow> state \<Rightarrow> bool \<times> state" where
  "sitUpsBody s isUpSitUp st =
     (let st = readMotion s st;
          (isUpSitUp, st) =
            (if isUpSitUp \<and> X st > Y st then
               (False,
                let st = hw (SetPixelColor (numOfSitUps st) PURPLE) st;
                    st = hw (PlayTone 440 100) st
                in st\<lparr>numOfSitUps := numOfSitUps st + 1\<rparr>)
             else if \<not> isUpSitUp \<and> X st < Y st then (True, st)
             else (isUpSitUp, st))
      in (isUpSitUp, hw (Delay DEBOUNCE) st))"

fun sitUpsLoop :: "bool \<Rightarrow> state \<Rightarrow> sample list \<Rightarrow> outcome" where
  "sitUpsLoop isUpSitUp st [] =
     (if numOfSitUps st < REPS then Running st else Returned st [])"
| "sitUpsLoop isUpSitUp st (s # ss) =
     (if numOfSitUps st < REPS then
        (case sitUpsBody s isUpSitUp st of (isUpSitUp', st') \<Rightarrow> sitUpsLoop isUpSitUp' st' ss)
      else Returned st (s # ss))"

definition trackSitUps :: "state \<Rightarrow> sample list \<Rightarrow> outcome" where
  "trackSitUps st ss =
     (let st = blinkAnimLed PURPLE st;
          st = hw ClearPixels st
      in andThen (sitUpsLoop False st ss)
           (\<lambda>st. let st = setAllLeds PURPLE st;
                     st = victorySong st
                 in st\<lparr>finishedSitUps := True\<rparr>))"

definition pushUpsBody :: "sample \<Rightarrow> bool \<Rightarrow> state \<Rightarrow> bool \<times> state" where
  "pushUpsBody s isDownPushUp st =
     (let st = readMotion s st;
          (isDownPushUp, st) =
            (if isDownPushUp \<and> Z st > X st then
               (False,
                let st = hw (SetPixelColor (numOfPushUps st) PINK) st;
                    st = hw (PlayTone 440 100) st
                in st\<lparr>numOfPushUps := numOfPushUps st + 1\<rparr>)
             else if \<not> isDownPushUp \<and> Z st < X st then (True, st)
             else (isDownPushUp, st))
      in (isDownPushUp, hw (Delay DEBOUNCE) st))"

fun pushUpsLoop :: "bool \<Rightarrow> state \<Rightarrow> sample list \<Rightarrow> outcome" where
  "pushUpsLoop isDownPushUp st [] =
     (if numOfPushUps st < REPS then Running st else Returned st [])"
| "pushUpsLoop isDownPushUp st (s # ss) =
     (if numOfPushUps st < REPS then
        (case pushUpsBody s isDownPushUp st of
           (isDownPushUp', st') \<Rightarrow> pushUpsLoop isDownPushUp' st' ss)
      else Returned st (s # ss))"

definition trackPushUps :: "state \<Rightarrow> sample list \<Rightarrow> outcome" where
  "trackPushUps st ss =
     (let st = blinkAnimLed PINK st;
          st = hw ClearPixels st
      in andThen (pushUpsLoop False st ss)
           (\<lambda>st. let st = setAllLeds PINK st;
                     st = victorySong st
                 in st\<lparr>finishedPushUps := True\<rparr>))"

text \<open>The squat loop waits \<^verbatim>\<open>DEBOUNCE*2.5\<close> = 250 ms per tick.\<close>

definition squatsBody :: "sample \<Rightarrow> bool \<Rightarrow> state \<Rightarrow> bool \<times> state" where
  "squatsBody s isDownSquat st =
     (let st = readMotion s st;
          (isDownSquat, st) =
            (if isDownSquat \<and> Z st > Y st then
               (False,
                let st = hw (SetPixelColor (numOfSquats st) BLUE) st;
                    st = hw (PlayTone 440 100) st
                in st\<lparr>numOfSquats := numOfSquats st + 1\<rparr>)
             else if \<not> isDownSquat \<and> Z st < Y st then (True, st)
             else (isDownSquat, st))
      in (isDownSquat, hw (Delay (DEBOUNCE * 5 div 2)) st))"

fun squatsLoop :: "bool \<Rightarrow> state \<Rightarrow> sample list \<Rightarrow> outcome" where
  "squatsLoop isDownSquat st [] =
     (if numOfSquats st < REPS then Running st else Returned st [])"
| "squatsLoop isDownSquat st (s # ss) =
     (if numOfSquats st < REPS then
        (case squatsBody s isDownSquat st of
           (isDownSquat', st') \<Rightarrow> squatsLoop isDownSquat' st' ss)
      else Returned st (s # ss))"

definition trackSquats :: "state \<Rightarrow> sample list \<Rightarrow> outcome" where
  "trackSquats st ss =
     (let st = blinkAnimLed BLUE st;
          st = hw ClearPixels st
      in andThen (squatsLoop True st ss)
           (\<lambda>st. let st = setAllLeds BLUE st;
                     st = victorySong st
                 in st\<lparr>finishedSquats := True\<rparr>))"

text \<open>
  The jumping-jack loop has no phase variable: it counts the ticks whose reading has
  \<open>x \<le> -15\<close> in \<open>totalJumps\<close> and counts a repetition whenever that number is even.
  It waits \<^verbatim>\<open>DEBOUNCE*1.5\<close> = 150 ms per tick.
\<close>

definition jumpJacksBody :: "sample \<Rightarrow> int \<Rightarrow> state \<Rightarrow> int \<times> state" where
  "jumpJacksBody s totalJumps st =
     (let st = readMotion s st;
          (totalJumps, st) =
            (if X st \<le> - 15 then
               (let totalJumps = totalJumps + 1 in
                if totalJumps mod 2 = 0 then
                  (totalJumps,
                   let st = hw (SetPixelColor (numOfJumpJacks st) GREEN) st;
                       st = hw (PlayTone 440 100) st
                   in st\<lparr>numOfJumpJacks := numOfJumpJacks st + 1\<rparr>)
                else (totalJumps, st))
             else (totalJumps, st))
      in (totalJumps, hw (Delay (DEBOUNCE * 3 div 2)) st))"

fun jumpJacksLoop :: "int \<Rightarrow> state \<Rightarrow> sample list \<Rightarrow> outcome" where
  "jumpJacksLoop totalJumps st [] =
     (if numOfJumpJacks st < REPS then Running st else Returned st [])"
| "jumpJacksLoop totalJumps st (s # ss) =
     (if numOfJumpJacks st < REPS then
        (case jumpJacksBody s totalJumps st of
           (totalJumps', st') \<Rightarrow> jumpJacksLoop totalJumps' st' ss)
      else Returned st (s # ss))"

definition trackJumpJacks :: "state \<Rightarrow> sample list \<Rightarrow> outcome" where
  "trackJumpJacks st ss =
     (let st = blinkAnimLed GREEN st;
          st = hw ClearPixels st
      in andThen (jumpJacksLoop 1 st ss)
           (\<lambda>st. let st = setAllLeds GREEN st;
                     st = victorySong st
                 in st\<lparr>finishedJumpJacks := True\<rparr>))"

subsection \<open>Classification and the session controller\<close>

text \<open>
  The \<^verbatim>\<open>while (true)\<close> loop of \<^verbatim>\<open>beginTracking\<close>: it leaves only through one of
  its two \<^verbatim>\<open>break\<close>s, each after a whole routine and a redraw of the menu.
\<close>

fun standingLoop :: "state \<Rightarrow> sample list \<Rightarrow> outcome" where
  "standingLoop st [] = Running st"
| "standingLoop st (s # ss) =
     (let st = readMotion s st;
          st = hw (Delay DEBOUNCE) st
      in if \<not> finishedJumpJacks st \<and> X st \<le> - 15 then
           andThen (trackJumpJacks st ss)
             (\<lambda>st. showMainMenu (hw (Delay (DEBOUNCE * 5)) st))
         else if \<not> finishedSquats st \<and> Z st < Y st then
           andThen (trackSquats st ss)
             (\<lambda>st. showMainMenu (hw (Delay (DEBOUNCE * 5)) st))
         else standingLoop st ss)"

fun beginTracking :: "state \<Rightarrow> sample list \<Rightarrow> outcome" where
  "beginTracking st [] = Running st"
| "beginTracking st (s # ss) =
     (let st = readMotion s st in
      andThen
        (if X st < Y st \<and> Y st < Z st then standingLoop st ss
         else if \<not> finishedPushUps st \<and> Y st > Z st \<and> Z st > X st then trackPushUps st ss
         else if \<not> finishedSitUps st \<and> Z st > X st \<and> X st > Y st then trackSitUps st ss
         else Returned st ss)
        (\<lambda>st. showMainMenu (hw (Delay (DEBOUNCE * 5)) st)))"

definition setup' :: "state \<Rightarrow> state" where
  "setup' st = showMainMenu (hw (SetBrightness 4) (hw Begin st))"

text \<open>
  One pass of \<^verbatim>\<open>loop()\<close>; \<open>pressed\<close> is the value of
  \<^verbatim>\<open>leftButton() || rightButton()\<close> at that pass.
\<close>

definition loop :: "bool \<Rightarrow> state \<Rightarrow> sample list \<Rightarrow> outcome" where
  "loop pressed st ss =
     andThen
       (if pressed then beginTracking (hw (PlayTone 440 100) (setAllLeds WHITE st)) ss
        else Returned st ss)
       (hw (Delay DEBOUNCE))"

text \<open>
  The Arduino runtime: \<^verbatim>\<open>setup()\<close> once, then \<^verbatim>\<open>loop()\<close> for ever. \<open>runLoop\<close>
  makes one pass per button poll; \<open>Returned\<close> is the idle state between two passes.
\<close>

fun runLoop :: "bool list \<Rightarrow> state \<Rightarrow> sample list \<Rightarrow> outcome" where
  "runLoop [] st ss = Returned st ss"
| "runLoop (pressed # polls) st ss =
     (case loop pressed st ss of
        Running st \<Rightarrow> Running st
      | Returned st rest \<Rightarrow> runLoop polls st rest)"

definition sketch :: "bool list \<Rightarrow> sample list \<Rightarrow> outcome" where
  "sketch polls ss = runLoop polls (setup' powerOn) ss"

subsection \<open>The vocabulary of the specification\<close>

text \<open>
  The specification speaks of four exercise kinds, each with a \<open>RoutineState\<close> of
  \<open>completedReps\<close> and \<open>finished\<close>. In the sketch these are the eight globals; the
  functions below read them by kind, together with the colour the sketch uses for the
  kind, its pair of menu pixels and its tracking function.
\<close>

datatype ExerciseKind = JumpingJacks | Squats | Situps | Pushups

fun finished :: "ExerciseKind \<Rightarrow> state \<Rightarrow> bool" where
  "finished JumpingJacks st = finishedJumpJacks st"
| "finished Squats st = finishedSquats st"
| "finished Situps st = finishedSitUps st"
| "finished Pushups st = finishedPushUps st"

fun completedReps :: "ExerciseKind \<Rightarrow> state \<Rightarrow> int" where
  "completedReps JumpingJacks st = numOfJumpJacks st"
| "completedReps Squats st = numOfSquats st"
| "completedReps Situps st = numOfSitUps st"
| "completedReps Pushups st = numOfPushUps st"

fun colourOf :: "ExerciseKind \<Rightarrow> nat" where
  "colourOf JumpingJacks = GREEN"
| "colourOf Squats = BLUE"
| "colourOf Situps = PURPLE"
| "colourOf Pushups = PINK"

fun indicatorPair :: "ExerciseKind \<Rightarrow> int list" where
  "indicatorPair JumpingJacks = [0, 1]"
| "indicatorPair Squats = [3, 4]"
| "indicatorPair Situps = [5, 6]"
| "indicatorPair Pushups = [8, 9]"

fun track :: "ExerciseKind \<Rightarrow> state \<Rightarrow> sample list \<Rightarrow> outcome" where
  "track JumpingJacks = trackJumpJacks"
| "track Squats = trackSquats"
| "track Situps = trackSitUps"
| "track Pushups = trackPushUps"

definition kinds :: "ExerciseKind list" where
  "kinds = [JumpingJacks, Squats, Situps, Pushups]"

text \<open>A call that sets some pixel to the colour \<open>c\<close>.\<close>

fun paints :: "nat \<Rightarrow> call \<Rightarrow> bool" where
  "paints c (SetPixelColor i c') = (c = c')"
| "paints c other = False"

text \<open>
  Modelled from the spec: the board library itself is not part of the sketch. Section 6
  of the specification gives \<open>clearIndicators()\<close> and \<open>setIndicator(index, color)\<close> as
  rendering positional pixel state, and the sketch's own comment on \<^verbatim>\<open>clearPixels()\<close> is
  "Turn off all LEDs". \<open>pixels tr i\<close> is the colour pixel \<open>i\<close> shows after the calls
  \<open>tr\<close>, 0 for a pixel that is off.
\<close>

fun pixelStep :: "(int \<Rightarrow> nat) \<Rightarrow> call \<Rightarrow> (int \<Rightarrow> nat)" where
  "pixelStep f ClearPixels = (\<lambda>i. 0)"
| "pixelStep f (SetPixelColor i c) = f(i := c)"
| "pixelStep f other = f"

definition pixels :: "call list \<Rightarrow> int \<Rightarrow> nat" where
  "pixels tr = foldl pixelStep (\<lambda>i. 0) tr"

text \<open>
  The condition under which the specification places the routine state at idle: a kind is
  finished exactly when its counter is 10, and a counter is 0 or 10.
\<close>

definition idleInv :: "state \<Rightarrow> bool" where
  "idleInv st =
     list_all (\<lambda>k. (finished k st \<longleftrightarrow> completedReps k st = 10) \<and>
                   (completedReps k st = 0 \<or> completedReps k st = 10)) kinds"

text \<open>
  \<open>squatCycles n ss\<close>: the readings \<open>ss\<close> are \<open>n\<close> full squat cycles, each a reading with
  \<open>z < y\<close> (down) followed by one with \<open>z > y\<close> (up).
\<close>

fun squatCycles :: "nat \<Rightarrow> sample list \<Rightarrow> bool" where
  "squatCycles 0 ss = (ss = [])"
| "squatCycles (Suc n) ((x, y, z) # (x', y', z') # ss) =
     (z < y \<and> z' > y' \<and> squatCycles n ss)"
| "squatCycles (Suc n) ss = False"

text \<open>
  The calls of \<open>n\<close> squat cycles that each count, the first with the counter at \<open>k\<close>:
  the wait of the down reading, then the repetition event and the wait of the up reading.
\<close>

fun squatEvents :: "int \<Rightarrow> nat \<Rightarrow> call list" where
  "squatEvents k 0 = []"
| "squatEvents k (Suc n) =
     [Delay 250, SetPixelColor k BLUE, PlayTone 440 100, Delay 250] @ squatEvents (k + 1) n"

text \<open>The number of positions of \<open>xs\<close> at which the block \<open>p\<close> starts.\<close>

fun occurrences :: "'a list \<Rightarrow> 'a list \<Rightarrow> nat" where
  "occurrences p [] = (if p = [] then 1 else 0)"
| "occurrences p (x # xs) =
     (if take (length p) (x # xs) = p then 1 else 0) + occurrences p xs"

subsection \<open>The calls each function makes\<close>

text \<open>
  For the proofs every function of the sketch that only drives the board is rewritten as
  one \<open>emit\<close> of the list of calls it makes.
\<close>

definition emit :: "call list \<Rightarrow> state \<Rightarrow> state" where
  "emit cs st = st\<lparr>trace := trace st @ cs\<rparr>"

definition fill :: "nat \<Rightarrow> call list" where
  "fill color = map (\<lambda>i. SetPixelColor i color) [0..9]"

definition blink :: "nat \<Rightarrow> call list" where
  "blink color = ClearPixels #
     concat (replicate 2 (fill color @ [PlayTone 440 100, Delay 100, ClearPixels, Delay 100]))"

definition song :: "call list" where
  "song = [PlayTone 392 91, PlayTone 523 91, PlayTone 659 91, PlayTone 784 137,
           PlayTone 659 68, PlayTone 784 550]"

definition menu :: "state \<Rightarrow> call list" where
  "menu st = ClearPixels #
     (if finishedJumpJacks st then [] else [SetPixelColor 0 GREEN, SetPixelColor 1 GREEN]) @
     (if finishedSquats st then [] else [SetPixelColor 3 BLUE, SetPixelColor 4 BLUE]) @
     (if finishedSitUps st then [] else [SetPixelColor 5 PURPLE, SetPixelColor 6 PURPLE]) @
     (if finishedPushUps st then [] else [SetPixelColor 8 PINK, SetPixelColor 9 PINK])"

text \<open>
  What the sketch holds about one kind: \<open>routineState\<close> is the pair of the
  specification, \<open>view\<close> adds the calls made so far that set a pixel to the kind's colour.
\<close>

definition routineState :: "ExerciseKind \<Rightarrow> state \<Rightarrow> bool \<times> int" where
  "routineState k st = (finished k st, completedReps k st)"

definition view :: "ExerciseKind \<Rightarrow> state \<Rightarrow> bool \<times> int \<times> call list" where
  "view k st = (finished k st, completedReps k st, filter (paints (colourOf k)) (trace st))"

text \<open>
  The return to the menu, written three times in \<^verbatim>\<open>beginTracking\<close>: half a second of
  waiting, then \<^verbatim>\<open>showMainMenu()\<close>.
\<close>

definition idle :: "state \<Rightarrow> state" where
  "idle = (\<lambda>st. showMainMenu (hw (Delay (DEBOUNCE * 5)) st))"

text \<open>The condition of \<open>idleInv\<close> on one routine state.\<close>

fun routineOk :: "bool \<times> int \<Rightarrow> bool" where
  "routineOk (f, c) = ((f \<longleftrightarrow> c = 10) \<and> (c = 0 \<or> c = 10))"

text \<open>
  Readings for whole sessions, from the press of the button on: a sit-up routine started
  lying down, a jumping-jack routine and a squat routine started standing.
\<close>

definition situpSession :: "sample list" where
  "situpSession = (2, 1, 3) # concat (replicate 10 [(1, 5, 0), (5, 1, 0)])"

definition jumpJackSession :: "sample list" where
  "jumpJackSession = (1, 2, 3) # (- 20, 2, 3) # replicate 19 (- 20, 2, 3)"

definition squatSession :: "sample list" where
  "squatSession = (1, 2, 3) # (0, 3, 2) # (0, 2, 3) # concat (replicate 9 [(0, 3, 2), (0, 2, 3)])"

text \<open>
  The repetitions of the specification, counted on the readings alone. Section 4.2 gives
  each phase detector an active side and a reference side of one comparison of two axes
  and counts a repetition on the return to the reference side after the active side was
  entered: \<open>returnsCounted active reference inActive ss\<close> is the number of such returns
  in \<open>ss\<close>, for a detector that is in its active phase at the start exactly if \<open>inActive\<close>.
  For jumping jacks every reading with \<open>x \<le> -15\<close> is a jump and every jump that makes
  the number of jumps even is a repetition: \<open>evenJumps jumps ss\<close> is the number of those
  in \<open>ss\<close>, with \<open>jumps\<close> jumps made before.
\<close>

fun returnsCounted :: "(sample \<Rightarrow> bool) \<Rightarrow> (sample \<Rightarrow> bool) \<Rightarrow> bool \<Rightarrow> sample list \<Rightarrow> nat" where
  "returnsCounted active reference inActive [] = 0"
| "returnsCounted active reference inActive (s # ss) =
     (if inActive \<and> reference s then Suc (returnsCounted active reference False ss)
      else if \<not> inActive \<and> active s then returnsCounted active reference True ss
      else returnsCounted active reference inActive ss)"

fun evenJumps :: "int \<Rightarrow> sample list \<Rightarrow> nat" where
  "evenJumps jumps [] = 0"
| "evenJumps jumps ((x, y, z) # ss) =
     (if x \<le> - 15 then (if even (jumps + 1) then 1 else 0) + evenJumps (jumps + 1) ss
      else evenJumps jumps ss)"

text \<open>
  The four \<^verbatim>\<open>while\<close> loops have one shape: a guard on the globals and a body with
  one local variable. \<open>whileLoop\<close> is that shape; each loop of the sketch is shown
  equal to its instance, so that a fact about all four loops is proved once.
\<close>

fun whileLoop :: "(state \<Rightarrow> bool) \<Rightarrow> (sample \<Rightarrow> 'l \<Rightarrow> state \<Rightarrow> 'l \<times> state) \<Rightarrow>
    'l \<Rightarrow> state \<Rightarrow> sample list \<Rightarrow> outcome" where
  "whileLoop g b l st [] = (if g st then Running st else Returned st [])"
| "whileLoop g b l st (s # ss) =
     (if g st then (case b s l st of (l', st') \<Rightarrow> whileLoop g b l' st' ss)
      else Returned st (s # ss))"

section \<open>Lemmas\<close>

lemma emit_fields [simp]:
  "finishedJumpJacks (emit cs st) = finishedJumpJacks st"
  "finishedSquats (emit cs st) = finishedSquats st"
  "finishedSitUps (emit cs st) = finishedSitUps st"
  "finishedPushUps (emit cs st) = finishedPushUps st"
  "numOfJumpJacks (emit cs st) = numOfJumpJacks st"
  "numOfSquats (emit cs st) = numOfSquats st"
  "numOfSitUps (emit cs st) = numOfSitUps st"
  "numOfPushUps (emit cs st) = numOfPushUps st"
  "X (emit cs st) = X st" "Y (emit cs st) = Y st" "Z (emit cs st) = Z st"
  "trace (emit cs st) = trace st @ cs"
  by (simp_all add: emit_def)

lemma emit_emit [simp]: "emit cs (emit ds st) = emit (ds @ cs) st"
  by (simp add: emit_def)

lemma hw_emit: "hw c st = emit [c] st"
  by (simp add: hw_def emit_def)

lemma fold_hw: "fold (\<lambda>i. hw (f i)) is st = emit (map f is) st"
  by (induction "is" arbitrary: st) (simp_all add: hw_emit emit_def)

lemma setAllLeds_emit: "setAllLeds color st = emit (fill color) st"
  by (simp add: setAllLeds_def fill_def fold_hw)

lemma upto_0_1: "[0..(1::int)] = [0, 1]"
  by (simp add: upto_rec1)

lemma blinkAnimLed_emit: "blinkAnimLed color st = emit (blink color) st"
  by (simp add: blinkAnimLed_def blink_def upto_0_1 setAllLeds_emit hw_emit DEBOUNCE_def
      numeral_2_eq_2)

lemma upt_6: "[0..<6] = [0, 1, 2, 3, 4, 5]"
  by (simp add: upt_rec)

lemma victorySong_emit: "victorySong st = emit song st"
  by (simp add: victorySong_def hw_emit song_def upt_6 notes'_def durations_def
      EIGHTH_TRIPLE_def EIGHTH_def SIXTEENTH_def HALF_def)

lemma showMainMenu_emit: "showMainMenu st = emit (menu st) st"
  by (simp add: showMainMenu_def menu_def hw_emit Let_def)

lemma sitUpsBody_eq:
  "sitUpsBody (x, y, z) isUp st =
     (if isUp \<and> y < x then
        (False, emit [SetPixelColor (numOfSitUps st) PURPLE, PlayTone 440 100, Delay 100]
                  (st\<lparr>numOfSitUps := numOfSitUps st + 1, X := x, Y := y, Z := z\<rparr>))
      else (isUp \<or> x < y, emit [Delay 100] (st\<lparr>X := x, Y := y, Z := z\<rparr>)))"
  by (simp add: sitUpsBody_def readMotion_def hw_emit emit_def DEBOUNCE_def Let_def)

lemma pushUpsBody_eq:
  "pushUpsBody (x, y, z) isDown st =
     (if isDown \<and> x < z then
        (False, emit [SetPixelColor (numOfPushUps st) PINK, PlayTone 440 100, Delay 100]
                  (st\<lparr>numOfPushUps := numOfPushUps st + 1, X := x, Y := y, Z := z\<rparr>))
      else (isDown \<or> z < x, emit [Delay 100] (st\<lparr>X := x, Y := y, Z := z\<rparr>)))"
  by (simp add: pushUpsBody_def readMotion_def hw_emit emit_def DEBOUNCE_def Let_def)

lemma squatsBody_eq:
  "squatsBody (x, y, z) isDown st =
     (if isDown \<and> y < z then
        (False, emit [SetPixelColor (numOfSquats st) BLUE, PlayTone 440 100, Delay 250]
                  (st\<lparr>numOfSquats := numOfSquats st + 1, X := x, Y := y, Z := z\<rparr>))
      else (isDown \<or> z < y, emit [Delay 250] (st\<lparr>X := x, Y := y, Z := z\<rparr>)))"
  by (simp add: squatsBody_def readMotion_def hw_emit emit_def DEBOUNCE_def Let_def)

lemma jumpJacksBody_eq:
  "jumpJacksBody (x, y, z) totalJumps st =
     (if x \<le> - 15 \<and> odd totalJumps then
        (totalJumps + 1,
         emit [SetPixelColor (numOfJumpJacks st) GREEN, PlayTone 440 100, Delay 150]
           (st\<lparr>numOfJumpJacks := numOfJumpJacks st + 1, X := x, Y := y, Z := z\<rparr>))
      else (if x \<le> - 15 then totalJumps + 1 else totalJumps,
            emit [Delay 150] (st\<lparr>X := x, Y := y, Z := z\<rparr>)))"
  by (simp add: jumpJacksBody_def readMotion_def hw_emit emit_def DEBOUNCE_def Let_def
      even_iff_mod_2_eq_zero [symmetric])

lemma sitUpsLoop_while:
  "sitUpsLoop l st ss = whileLoop (\<lambda>st. numOfSitUps st < REPS) sitUpsBody l st ss"
  by (induction ss arbitrary: l st) (simp_all split: prod.splits)

lemma pushUpsLoop_while:
  "pushUpsLoop l st ss = whileLoop (\<lambda>st. numOfPushUps st < REPS) pushUpsBody l st ss"
  by (induction ss arbitrary: l st) (simp_all split: prod.splits)

lemma squatsLoop_while:
  "squatsLoop l st ss = whileLoop (\<lambda>st. numOfSquats st < REPS) squatsBody l st ss"
  by (induction ss arbitrary: l st) (simp_all split: prod.splits)

lemma jumpJacksLoop_while:
  "jumpJacksLoop l st ss = whileLoop (\<lambda>st. numOfJumpJacks st < REPS) jumpJacksBody l st ss"
  by (induction ss arbitrary: l st) (simp_all split: prod.splits)

lemma whileLoop_done: "\<not> g st \<Longrightarrow> whileLoop g b l st ss = Returned st ss"
  by (cases ss) simp_all

lemma whileLoop_invariant:
  assumes "P st"
    and "\<And>s l st. P st \<Longrightarrow> g st \<Longrightarrow> P (snd (b s l st))"
  shows "P (stateOf (whileLoop g b l st ss))"
  using assms(1)
proof (induction ss arbitrary: l st)
  case Nil
  then show ?case by simp
next
  case (Cons s ss)
  show ?case
  proof (cases "g st")
    case True
    obtain l' st' where b: "b s l st = (l', st')" by (cases "b s l st")
    from assms(2) [OF Cons.prems True, of s l] b have "P st'" by simp
    from Cons.IH [OF this] True b show ?thesis by simp
  next
    case False
    with Cons.prems show ?thesis by simp
  qed
qed

lemma whileLoop_guard:
  "hasReturned (whileLoop g b l st ss) = (\<not> g (stateOf (whileLoop g b l st ss)))"
  by (induction ss arbitrary: l st) (simp_all split: prod.splits)

lemma whileLoop_append:
  "\<exists>l'. whileLoop g b l st (ss @ ts) =
     (case whileLoop g b l st ss of
        Returned st' rest \<Rightarrow> Returned st' (rest @ ts)
      | Running st' \<Rightarrow> whileLoop g b l' st' ts)"
proof (induction ss arbitrary: l st)
  case Nil
  show ?case by (cases "g st") (auto simp: whileLoop_done)
next
  case (Cons s ss)
  show ?case
  proof (cases "g st")
    case True
    obtain l1 st1 where b: "b s l st = (l1, st1)" by (cases "b s l st")
    from Cons.IH [of l1 st1] True b show ?thesis by simp
  next
    case False
    then show ?thesis by simp
  qed
qed

lemma whileLoop_snoc:
  "stateOf (whileLoop g b l st (ss @ [s])) = stateOf (whileLoop g b l st ss) \<or>
   (\<exists>l'. g (stateOf (whileLoop g b l st ss)) \<and>
      stateOf (whileLoop g b l st (ss @ [s])) = snd (b s l' (stateOf (whileLoop g b l st ss))))"
proof -
  obtain l' where a: "whileLoop g b l st (ss @ [s]) =
     (case whileLoop g b l st ss of
        Returned st' rest \<Rightarrow> Returned st' (rest @ [s])
      | Running st' \<Rightarrow> whileLoop g b l' st' [s])"
    using whileLoop_append [of g b l st ss "[s]"] by blast
  show ?thesis
  proof (cases "whileLoop g b l st ss")
    case (Returned st' rest)
    with a show ?thesis by simp
  next
    case (Running st')
    with whileLoop_guard [of g b l st ss] have g: "g st'" by simp
    with a Running have "stateOf (whileLoop g b l st (ss @ [s])) = snd (b s l' st')"
      by (simp split: prod.splits)
    with g Running show ?thesis by auto
  qed
qed


lemma stateOf_andThen:
  "stateOf (andThen out f) = (if hasReturned out then f (stateOf out) else stateOf out)"
  by (cases out) simp_all

lemma hasReturned_andThen [simp]: "hasReturned (andThen out f) = hasReturned out"
  by (cases out) simp_all

text \<open>A sit-up or push-up loop that never sees its active side never counts.\<close>

lemma sitUpsLoop_reference:
  "list_all (\<lambda>(x, y, z). \<not> x < y) ss \<Longrightarrow>
   numOfSitUps (stateOf (sitUpsLoop False st ss)) = numOfSitUps st"
  by (induction ss arbitrary: st) (auto simp: sitUpsBody_eq)

lemma pushUpsLoop_reference:
  "list_all (\<lambda>(x, y, z). \<not> z < x) ss \<Longrightarrow>
   numOfPushUps (stateOf (pushUpsLoop False st ss)) = numOfPushUps st"
  by (induction ss arbitrary: st) (auto simp: pushUpsBody_eq)

text \<open>
  \<open>n\<close> squat cycles, fed to the squat loop in any phase with room for \<open>n\<close> more
  repetitions, are consumed whole and count \<open>n\<close>.
\<close>

lemma squatsLoop_cycles:
  "squatCycles n ss \<Longrightarrow> numOfSquats st + int n \<le> 10 \<Longrightarrow>
   \<exists>st'. squatsLoop isDown st (ss @ rest) = squatsLoop (if n = 0 then isDown else False) st' rest \<and>
         numOfSquats st' = numOfSquats st + int n \<and>
         trace st' = trace st @ squatEvents (numOfSquats st) n"
proof (induction n ss arbitrary: st isDown rule: squatCycles.induct)
  case (1 ss)
  then show ?case by (intro exI [of _ st]) simp
next
  case (2 n x y z x' y' z' ss)
  let ?st1 = "emit [Delay 250] (st\<lparr>X := x, Y := y, Z := z\<rparr>)"
  let ?st2 = "emit [SetPixelColor (numOfSquats st) BLUE, PlayTone 440 100, Delay 250]
                (?st1\<lparr>numOfSquats := numOfSquats st + 1, X := x', Y := y', Z := z'\<rparr>)"
  from "2.prems" have c: "z < y" "y' < z'" "squatCycles n ss"
    and b: "numOfSquats st < 10" "numOfSquats ?st2 + int n \<le> 10"
    by simp_all
  from c b(1) have step: "squatsLoop isDown st (((x, y, z) # (x', y', z') # ss) @ rest) =
      squatsLoop False ?st2 (ss @ rest)"
    by (simp add: squatsBody_eq REPS_def)
  from "2.IH" [OF c(3) b(2), of False] obtain st' where
    "squatsLoop False ?st2 (ss @ rest) = squatsLoop (if n = 0 then False else False) st' rest"
    "numOfSquats st' = numOfSquats ?st2 + int n"
    "trace st' = trace ?st2 @ squatEvents (numOfSquats ?st2) n"
    by blast
  with step show ?case
    by (intro exI [of _ st']) simp
qed simp_all

lemma squatEvents_10:
  "squatEvents 0 10 =
     concat (map (\<lambda>i. [Delay 250, SetPixelColor i BLUE, PlayTone 440 100, Delay 250]) [0..9])"
  by (simp add: eval_nat_numeral upto_rec1)

subsection \<open>Counting in a loop guarded by its counter\<close>

text \<open>
  Facts about any loop whose guard is \<open>c st < REPS\<close> for a counter \<open>c\<close> that a tick
  raises by one at most, and about feeding one reading twice.
\<close>

lemma whileLoop_count_mono:
  assumes "\<And>s l st. c st < REPS \<Longrightarrow> c st \<le> c (snd (b s l st))"
  shows "c st \<le> c (stateOf (whileLoop (\<lambda>st. c st < REPS) b l st ss))"
  by (rule whileLoop_invariant [where P = "\<lambda>st'. c st \<le> c st'"])
     (use assms in \<open>auto intro: order_trans\<close>)

lemma whileLoop_count_prefix:
  assumes "\<And>s l st. c st < REPS \<Longrightarrow> c st \<le> c (snd (b s l st))"
  shows "c (stateOf (whileLoop (\<lambda>st. c st < REPS) b l st ss))
         \<le> c (stateOf (whileLoop (\<lambda>st. c st < REPS) b l st (ss @ ts)))"
proof -
  obtain l' where a: "whileLoop (\<lambda>st. c st < REPS) b l st (ss @ ts) =
     (case whileLoop (\<lambda>st. c st < REPS) b l st ss of
        Returned st' rest \<Rightarrow> Returned st' (rest @ ts)
      | Running st' \<Rightarrow> whileLoop (\<lambda>st. c st < REPS) b l' st' ts)"
    using whileLoop_append [of "\<lambda>st. c st < REPS" b l st ss ts] by blast
  show ?thesis
  proof (cases "whileLoop (\<lambda>st. c st < REPS) b l st ss")
    case (Returned st' rest)
    with a show ?thesis by simp
  next
    case (Running st')
    with a whileLoop_count_mono [of c b st' l' ts, OF assms] show ?thesis by simp
  qed
qed

lemma whileLoop_count_snoc:
  assumes "\<And>s l st. c st < REPS \<Longrightarrow> c (snd (b s l st)) \<le> c st + 1"
  shows "c (stateOf (whileLoop (\<lambda>st. c st < REPS) b l st (ss @ [s])))
         \<le> c (stateOf (whileLoop (\<lambda>st. c st < REPS) b l st ss)) + 1"
proof -
  let ?st' = "stateOf (whileLoop (\<lambda>st. c st < REPS) b l st ss)"
  let ?st'' = "stateOf (whileLoop (\<lambda>st. c st < REPS) b l st (ss @ [s]))"
  from whileLoop_snoc [of "\<lambda>st. c st < REPS" b l st ss s]
  consider "?st'' = ?st'" | l' where "c ?st' < REPS" "?st'' = snd (b s l' ?st')"
    by blast
  then show ?thesis
  proof cases
    case 1
    then show ?thesis by simp
  next
    case 2
    with assms [of ?st' s l'] show ?thesis by simp
  qed
qed

lemma whileLoop_count_bound:
  assumes "\<And>s l st. c st < REPS \<Longrightarrow> c (snd (b s l st)) \<le> c st + 1"
    and "c st \<le> 10"
  shows "c (stateOf (whileLoop (\<lambda>st. c st < REPS) b l st ss)) \<le> 10"
proof (rule whileLoop_invariant [where P = "\<lambda>st'. c st' \<le> 10"])
  show "c st \<le> 10" by fact
next
  fix s l st'
  assume "c st' < REPS"
  from assms(1) [OF this, of s l] this show "c (snd (b s l st')) \<le> 10"
    by (simp add: REPS_def)
qed

lemma whileLoop_count_exit:
  assumes "\<And>s l st. c st < REPS \<Longrightarrow> c (snd (b s l st)) \<le> c st + 1"
    and "c st \<le> 10"
    and "hasReturned (whileLoop (\<lambda>st. c st < REPS) b l st ss)"
  shows "c (stateOf (whileLoop (\<lambda>st. c st < REPS) b l st ss)) = 10"
  using whileLoop_count_bound [of c b st l ss, OF assms(1,2)] assms(3)
  by (simp add: whileLoop_guard REPS_def)

lemma whileLoop_refeed:
  assumes "\<And>l st. c (snd (b s (fst (b s l st)) (snd (b s l st)))) = c (snd (b s l st))"
  shows "c (stateOf (whileLoop g b l st (ss @ [s, s]))) =
         c (stateOf (whileLoop g b l st (ss @ [s])))"
proof (induction ss arbitrary: l st)
  case Nil
  from assms [of l st] show ?case
    by (auto split: prod.splits)
next
  case (Cons a ss)
  then show ?case
    by (auto split: prod.splits)
qed

lemma whileLoop_frame:
  assumes "\<And>s l st. g st \<Longrightarrow> obs (snd (b s l st)) = obs st"
  shows "obs (stateOf (whileLoop g b l st ss)) = obs st"
  by (rule whileLoop_invariant [where P = "\<lambda>st'. obs st' = obs st"])
     (use assms in auto)

lemma whileLoop_idle_sample:
  assumes "\<And>l st. c (snd (b s l st)) = c st"
  shows "c (stateOf (whileLoop g b l st (ss @ [s]))) = c (stateOf (whileLoop g b l st ss))"
  using whileLoop_snoc [of g b l st ss s] assms by auto

lemma sitUpsBody_count:
  "numOfSitUps (snd (sitUpsBody s l st)) =
     numOfSitUps st + (if l \<and> fst (snd s) < fst s then 1 else 0)"
  by (cases s) (simp add: sitUpsBody_eq)

lemma pushUpsBody_count:
  "numOfPushUps (snd (pushUpsBody s l st)) =
     numOfPushUps st + (if l \<and> fst s < snd (snd s) then 1 else 0)"
  by (cases s) (simp add: pushUpsBody_eq)

lemma squatsBody_count:
  "numOfSquats (snd (squatsBody s l st)) =
     numOfSquats st + (if l \<and> fst (snd s) < snd (snd s) then 1 else 0)"
  by (cases s) (simp add: squatsBody_eq)

lemma jumpJacksBody_count:
  "numOfJumpJacks (snd (jumpJacksBody s l st)) =
     numOfJumpJacks st + (if fst s \<le> - 15 \<and> odd l then 1 else 0)"
  by (cases s) (simp add: jumpJacksBody_eq)

text \<open>
  The C \<^verbatim>\<open>int\<close>s of the sketch are modelled by \<open>int\<close>. The four counters stay at 10
  or below, and the jump counter, created at 1 with the repetition counter at 0 or above,
  stays at 20 or below: no tick can overflow, and \<^verbatim>\<open>%\<close> on the positive jump
  counter is \<open>mod\<close>.
\<close>

lemma jumpJacksBody_bound:
  assumes "totalJumps \<le> 2 * numOfJumpJacks st + 1" and "numOfJumpJacks st < REPS"
  shows "fst (jumpJacksBody s totalJumps st)
           \<le> 2 * numOfJumpJacks (snd (jumpJacksBody s totalJumps st)) + 1 \<and>
         fst (jumpJacksBody s totalJumps st) \<le> 20"
proof -
  obtain x y z where s: "s = (x, y, z)" by (cases s)
  from assms have "even totalJumps \<Longrightarrow> totalJumps \<le> 2 * numOfJumpJacks st"
    by presburger
  with assms show ?thesis
    by (auto simp add: s jumpJacksBody_eq REPS_def)
qed

lemma trackSitUps_count:
  "numOfSitUps (stateOf (trackSitUps st ss)) =
     numOfSitUps (stateOf (whileLoop (\<lambda>st. numOfSitUps st < REPS) sitUpsBody False
        (emit (blink PURPLE @ [ClearPixels]) st) ss))"
  by (simp add: trackSitUps_def stateOf_andThen sitUpsLoop_while blinkAnimLed_emit hw_emit
      setAllLeds_emit victorySong_emit Let_def)

lemma trackPushUps_count:
  "numOfPushUps (stateOf (trackPushUps st ss)) =
     numOfPushUps (stateOf (whileLoop (\<lambda>st. numOfPushUps st < REPS) pushUpsBody False
        (emit (blink PINK @ [ClearPixels]) st) ss))"
  by (simp add: trackPushUps_def stateOf_andThen pushUpsLoop_while blinkAnimLed_emit hw_emit
      setAllLeds_emit victorySong_emit Let_def)

lemma trackSquats_count:
  "numOfSquats (stateOf (trackSquats st ss)) =
     numOfSquats (stateOf (whileLoop (\<lambda>st. numOfSquats st < REPS) squatsBody True
        (emit (blink BLUE @ [ClearPixels]) st) ss))"
  by (simp add: trackSquats_def stateOf_andThen squatsLoop_while blinkAnimLed_emit hw_emit
      setAllLeds_emit victorySong_emit Let_def)

lemma trackJumpJacks_count:
  "numOfJumpJacks (stateOf (trackJumpJacks st ss)) =
     numOfJumpJacks (stateOf (whileLoop (\<lambda>st. numOfJumpJacks st < REPS) jumpJacksBody 1
        (emit (blink GREEN @ [ClearPixels]) st) ss))"
  by (simp add: trackJumpJacks_def stateOf_andThen jumpJacksLoop_while blinkAnimLed_emit hw_emit
      setAllLeds_emit victorySong_emit Let_def)

lemma track_counter:
  "completedReps k st \<le> completedReps k (stateOf (track k st ss)) \<and>
   completedReps k (stateOf (track k st ss)) \<le> completedReps k (stateOf (track k st (ss @ ts))) \<and>
   completedReps k (stateOf (track k st (ss @ [s]))) \<le> completedReps k (stateOf (track k st ss)) + 1 \<and>
   (completedReps k st \<le> 10 \<longrightarrow> completedReps k (stateOf (track k st ss)) \<le> 10)"
proof (cases k)
  case JumpingJacks
  let ?st = "emit (blink GREEN @ [ClearPixels]) st"
  note whileLoop_count_mono [of numOfJumpJacks jumpJacksBody ?st 1 ss]
    whileLoop_count_prefix [of numOfJumpJacks jumpJacksBody 1 ?st ss ts]
    whileLoop_count_snoc [of numOfJumpJacks jumpJacksBody 1 ?st ss s]
    whileLoop_count_bound [of numOfJumpJacks jumpJacksBody ?st 1 ss]
  with JumpingJacks show ?thesis
    by (simp add: trackJumpJacks_count jumpJacksBody_count)
next
  case Squats
  let ?st = "emit (blink BLUE @ [ClearPixels]) st"
  note whileLoop_count_mono [of numOfSquats squatsBody ?st True ss]
    whileLoop_count_prefix [of numOfSquats squatsBody True ?st ss ts]
    whileLoop_count_snoc [of numOfSquats squatsBody True ?st ss s]
    whileLoop_count_bound [of numOfSquats squatsBody ?st True ss]
  with Squats show ?thesis
    by (simp add: trackSquats_count squatsBody_count)
next
  case Situps
  let ?st = "emit (blink PURPLE @ [ClearPixels]) st"
  note whileLoop_count_mono [of numOfSitUps sitUpsBody ?st False ss]
    whileLoop_count_prefix [of numOfSitUps sitUpsBody False ?st ss ts]
    whileLoop_count_snoc [of numOfSitUps sitUpsBody False ?st ss s]
    whileLoop_count_bound [of numOfSitUps sitUpsBody ?st False ss]
  with Situps show ?thesis
    by (simp add: trackSitUps_count sitUpsBody_count)
next
  case Pushups
  let ?st = "emit (blink PINK @ [ClearPixels]) st"
  note whileLoop_count_mono [of numOfPushUps pushUpsBody ?st False ss]
    whileLoop_count_prefix [of numOfPushUps pushUpsBody False ?st ss ts]
    whileLoop_count_snoc [of numOfPushUps pushUpsBody False ?st ss s]
    whileLoop_count_bound [of numOfPushUps pushUpsBody ?st False ss]
  with Pushups show ?thesis
    by (simp add: trackPushUps_count pushUpsBody_count)
qed

lemma sitUpsBody_twice:
  "numOfSitUps (snd (sitUpsBody s (fst (sitUpsBody s l st)) (snd (sitUpsBody s l st)))) =
   numOfSitUps (snd (sitUpsBody s l st))"
  by (cases s) (auto simp add: sitUpsBody_eq)

lemma pushUpsBody_twice:
  "numOfPushUps (snd (pushUpsBody s (fst (pushUpsBody s l st)) (snd (pushUpsBody s l st)))) =
   numOfPushUps (snd (pushUpsBody s l st))"
  by (cases s) (auto simp add: pushUpsBody_eq)

lemma squatsBody_twice:
  "numOfSquats (snd (squatsBody s (fst (squatsBody s l st)) (snd (squatsBody s l st)))) =
   numOfSquats (snd (squatsBody s l st))"
  by (cases s) (auto simp add: squatsBody_eq)

lemma track_refeed:
  "k \<noteq> JumpingJacks \<Longrightarrow>
   completedReps k (stateOf (track k st (ss @ [s, s]))) =
   completedReps k (stateOf (track k st (ss @ [s])))"
proof (cases k)
  case JumpingJacks
  assume "k \<noteq> JumpingJacks"
  with JumpingJacks show ?thesis by simp
next
  case Squats
  with whileLoop_refeed [of numOfSquats squatsBody s, OF squatsBody_twice]
  show ?thesis by (simp add: trackSquats_count)
next
  case Situps
  with whileLoop_refeed [of numOfSitUps sitUpsBody s, OF sitUpsBody_twice]
  show ?thesis by (simp add: trackSitUps_count)
next
  case Pushups
  with whileLoop_refeed [of numOfPushUps pushUpsBody s, OF pushUpsBody_twice]
  show ?thesis by (simp add: trackPushUps_count)
qed

lemma trackJumpJacks_no_jump:
  "- 15 < x \<Longrightarrow>
   numOfJumpJacks (stateOf (trackJumpJacks st (ss @ [(x, y, z)]))) =
   numOfJumpJacks (stateOf (trackJumpJacks st ss))"
  using whileLoop_idle_sample [of numOfJumpJacks jumpJacksBody "(x, y, z)"]
  by (simp add: trackJumpJacks_count jumpJacksBody_eq)

subsection \<open>What a session leaves alone\<close>

text \<open>
  No two kinds share a colour, a flag or a counter, so the session of one kind does not
  change the \<open>view\<close> of another, and nothing changes the view of a kind that is finished.
\<close>

lemma colours_distinct:
  "GREEN \<noteq> BLUE" "GREEN \<noteq> PURPLE" "GREEN \<noteq> PINK" "BLUE \<noteq> PURPLE" "BLUE \<noteq> PINK"
  "PURPLE \<noteq> PINK" "BLUE \<noteq> GREEN" "PURPLE \<noteq> GREEN" "PINK \<noteq> GREEN" "PURPLE \<noteq> BLUE"
  "PINK \<noteq> BLUE" "PINK \<noteq> PURPLE"
  "WHITE \<noteq> GREEN" "WHITE \<noteq> BLUE" "WHITE \<noteq> PURPLE" "WHITE \<noteq> PINK"
  "GREEN \<noteq> WHITE" "BLUE \<noteq> WHITE" "PURPLE \<noteq> WHITE" "PINK \<noteq> WHITE"
  by (simp_all add: GREEN_def BLUE_def PURPLE_def PINK_def WHITE_def)

lemma filter_paints_fill:
  "filter (paints c) (fill c') = (if c = c' then fill c' else [])"
  by (simp add: fill_def filter_map comp_def)

lemma filter_paints_blink: "c \<noteq> c' \<Longrightarrow> filter (paints c) (blink c') = []"
  by (simp add: blink_def filter_paints_fill numeral_2_eq_2)

lemma filter_paints_song: "filter (paints c) song = []"
  by (simp add: song_def)

lemma filter_paints_menu: "finished k st \<Longrightarrow> filter (paints (colourOf k)) (menu st) = []"
  by (cases k) (simp_all add: menu_def colours_distinct)

lemma view_emit:
  "filter (paints (colourOf k)) cs = [] \<Longrightarrow> view k (emit cs st) = view k st"
  by (cases k) (simp_all add: view_def)

lemma routineState_emit [simp]: "routineState k (emit cs st) = routineState k st"
  by (cases k) (simp_all add: routineState_def)

lemma finished_view: "finished k st = fst (view k st)"
  by (simp add: view_def)

lemma view_readMotion [simp]: "view k (readMotion s st) = view k st"
  by (cases k) (simp_all add: view_def readMotion_def)

lemma trackSitUps_shape:
  "trackSitUps st ss =
     andThen (whileLoop (\<lambda>st. numOfSitUps st < REPS) sitUpsBody False
                (emit (blink PURPLE @ [ClearPixels]) st) ss)
       (\<lambda>st. (emit (fill PURPLE @ song) st)\<lparr>finishedSitUps := True\<rparr>)"
  by (simp add: trackSitUps_def sitUpsLoop_while blinkAnimLed_emit hw_emit
      setAllLeds_emit victorySong_emit Let_def)

lemma trackPushUps_shape:
  "trackPushUps st ss =
     andThen (whileLoop (\<lambda>st. numOfPushUps st < REPS) pushUpsBody False
                (emit (blink PINK @ [ClearPixels]) st) ss)
       (\<lambda>st. (emit (fill PINK @ song) st)\<lparr>finishedPushUps := True\<rparr>)"
  by (simp add: trackPushUps_def pushUpsLoop_while blinkAnimLed_emit hw_emit
      setAllLeds_emit victorySong_emit Let_def)

lemma trackSquats_shape:
  "trackSquats st ss =
     andThen (whileLoop (\<lambda>st. numOfSquats st < REPS) squatsBody True
                (emit (blink BLUE @ [ClearPixels]) st) ss)
       (\<lambda>st. (emit (fill BLUE @ song) st)\<lparr>finishedSquats := True\<rparr>)"
  by (simp add: trackSquats_def squatsLoop_while blinkAnimLed_emit hw_emit
      setAllLeds_emit victorySong_emit Let_def)

lemma trackJumpJacks_shape:
  "trackJumpJacks st ss =
     andThen (whileLoop (\<lambda>st. numOfJumpJacks st < REPS) jumpJacksBody 1
                (emit (blink GREEN @ [ClearPixels]) st) ss)
       (\<lambda>st. (emit (fill GREEN @ song) st)\<lparr>finishedJumpJacks := True\<rparr>)"
  by (simp add: trackJumpJacks_def jumpJacksLoop_while blinkAnimLed_emit hw_emit
      setAllLeds_emit victorySong_emit Let_def)

lemma view_shape:
  assumes b: "\<And>s l st. view k (snd (b s l st)) = view k st"
    and pre: "filter (paints (colourOf k)) pre = []"
    and post: "\<And>st. view k (fin st) = view k st"
  shows "view k (stateOf (andThen (whileLoop g b l (emit pre st) ss) fin)) = view k st"
proof -
  have "view k (stateOf (whileLoop g b l (emit pre st) ss)) = view k (emit pre st)"
    by (rule whileLoop_frame) (rule b)
  with pre post show ?thesis
    by (simp add: stateOf_andThen view_emit)
qed

lemma track_view:
  assumes "k \<noteq> j"
  shows "view k (stateOf (track j st ss)) = view k st"
proof (cases j)
  case JumpingJacks
  have "view k (stateOf (trackJumpJacks st ss)) = view k st"
    unfolding trackJumpJacks_shape
  proof (rule view_shape)
    fix s l st
    show "view k (snd (jumpJacksBody s l st)) = view k st"
      using assms JumpingJacks
      by (cases s; cases k) (simp_all add: jumpJacksBody_eq view_def colours_distinct)
  next
    show "filter (paints (colourOf k)) (blink GREEN @ [ClearPixels]) = []"
      using assms JumpingJacks
      by (cases k) (simp_all add: filter_paints_blink colours_distinct)
  next
    fix st
    show "view k ((emit (fill GREEN @ song) st)\<lparr>finishedJumpJacks := True\<rparr>) = view k st"
      using assms JumpingJacks
      by (cases k) (simp_all add: view_def filter_paints_fill filter_paints_song colours_distinct)
  qed
  with JumpingJacks show ?thesis by simp
next
  case Squats
  have "view k (stateOf (trackSquats st ss)) = view k st"
    unfolding trackSquats_shape
  proof (rule view_shape)
    fix s l st
    show "view k (snd (squatsBody s l st)) = view k st"
      using assms Squats
      by (cases s; cases k) (simp_all add: squatsBody_eq view_def colours_distinct)
  next
    show "filter (paints (colourOf k)) (blink BLUE @ [ClearPixels]) = []"
      using assms Squats
      by (cases k) (simp_all add: filter_paints_blink colours_distinct)
  next
    fix st
    show "view k ((emit (fill BLUE @ song) st)\<lparr>finishedSquats := True\<rparr>) = view k st"
      using assms Squats
      by (cases k) (simp_all add: view_def filter_paints_fill filter_paints_song colours_distinct)
  qed
  with Squats show ?thesis by simp
next
  case Situps
  have "view k (stateOf (trackSitUps st ss)) = view k st"
    unfolding trackSitUps_shape
  proof (rule view_shape)
    fix s l st
    show "view k (snd (sitUpsBody s l st)) = view k st"
      using assms Situps
      by (cases s; cases k) (simp_all add: sitUpsBody_eq view_def colours_distinct)
  next
    show "filter (paints (colourOf k)) (blink PURPLE @ [ClearPixels]) = []"
      using assms Situps
      by (cases k) (simp_all add: filter_paints_blink colours_distinct)
  next
    fix st
    show "view k ((emit (fill PURPLE @ song) st)\<lparr>finishedSitUps := True\<rparr>) = view k st"
      using assms Situps
      by (cases k) (simp_all add: view_def filter_paints_fill filter_paints_song colours_distinct)
  qed
  with Situps show ?thesis by simp
next
  case Pushups
  have "view k (stateOf (trackPushUps st ss)) = view k st"
    unfolding trackPushUps_shape
  proof (rule view_shape)
    fix s l st
    show "view k (snd (pushUpsBody s l st)) = view k st"
      using assms Pushups
      by (cases s; cases k) (simp_all add: pushUpsBody_eq view_def colours_distinct)
  next
    show "filter (paints (colourOf k)) (blink PINK @ [ClearPixels]) = []"
      using assms Pushups
      by (cases k) (simp_all add: filter_paints_blink colours_distinct)
  next
    fix st
    show "view k ((emit (fill PINK @ song) st)\<lparr>finishedPushUps := True\<rparr>) = view k st"
      using assms Pushups
      by (cases k) (simp_all add: view_def filter_paints_fill filter_paints_song colours_distinct)
  qed
  with Pushups show ?thesis by simp
qed

lemma track_done:
  assumes "completedReps j st \<le> 10" and "hasReturned (track j st ss)"
  shows "finished j (stateOf (track j st ss)) \<and> completedReps j (stateOf (track j st ss)) = 10"
proof (cases j)
  case JumpingJacks
  with assms whileLoop_count_exit [of numOfJumpJacks jumpJacksBody
      "emit (blink GREEN @ [ClearPixels]) st" 1 ss]
  show ?thesis
    by (simp add: trackJumpJacks_shape stateOf_andThen jumpJacksBody_count)
next
  case Squats
  with assms whileLoop_count_exit [of numOfSquats squatsBody
      "emit (blink BLUE @ [ClearPixels]) st" True ss]
  show ?thesis
    by (simp add: trackSquats_shape stateOf_andThen squatsBody_count)
next
  case Situps
  with assms whileLoop_count_exit [of numOfSitUps sitUpsBody
      "emit (blink PURPLE @ [ClearPixels]) st" False ss]
  show ?thesis
    by (simp add: trackSitUps_shape stateOf_andThen sitUpsBody_count)
next
  case Pushups
  with assms whileLoop_count_exit [of numOfPushUps pushUpsBody
      "emit (blink PINK @ [ClearPixels]) st" False ss]
  show ?thesis
    by (simp add: trackPushUps_shape stateOf_andThen pushUpsBody_count)
qed

lemma idle_emit: "idle st = emit (Delay 500 # menu st) st"
  by (simp add: idle_def showMainMenu_emit hw_emit DEBOUNCE_def menu_def)

lemma view_idle: "finished k st \<Longrightarrow> view k (idle st) = view k st"
  by (simp add: idle_emit view_emit filter_paints_menu)

lemma view_andThen_idle:
  assumes "view k (stateOf out) = view k st" and "finished k st"
  shows "view k (stateOf (andThen out idle)) = view k st"
proof -
  from assms have "finished k (stateOf out)"
    by (simp add: finished_view)
  with assms(1) show ?thesis
    by (simp add: stateOf_andThen view_idle)
qed

lemma standingLoop_unfold:
  "standingLoop st (s # ss) =
     (let st = emit [Delay 100] (readMotion s st)
      in if \<not> finishedJumpJacks st \<and> X st \<le> - 15 then andThen (trackJumpJacks st ss) idle
         else if \<not> finishedSquats st \<and> Z st < Y st then andThen (trackSquats st ss) idle
         else standingLoop st ss)"
  by (simp add: hw_emit DEBOUNCE_def idle_def Let_def)

lemma beginTracking_unfold:
  "beginTracking st (s # ss) =
     (let st = readMotion s st in
      andThen
        (if X st < Y st \<and> Y st < Z st then standingLoop st ss
         else if \<not> finishedPushUps st \<and> Y st > Z st \<and> Z st > X st then trackPushUps st ss
         else if \<not> finishedSitUps st \<and> Z st > X st \<and> X st > Y st then trackSitUps st ss
         else Returned st ss) idle)"
  by (simp add: idle_def Let_def)

lemma view_step [simp]: "view k (emit [Delay d] (readMotion s st)) = view k st"
  by (simp add: view_emit)

lemma readMotion_flags [simp]:
  "finishedJumpJacks (readMotion s st) = finishedJumpJacks st"
  "finishedSquats (readMotion s st) = finishedSquats st"
  "finishedSitUps (readMotion s st) = finishedSitUps st"
  "finishedPushUps (readMotion s st) = finishedPushUps st"
  "numOfJumpJacks (readMotion s st) = numOfJumpJacks st"
  "numOfSquats (readMotion s st) = numOfSquats st"
  "numOfSitUps (readMotion s st) = numOfSitUps st"
  "numOfPushUps (readMotion s st) = numOfPushUps st"
  "trace (readMotion s st) = trace st"
  "X (readMotion (x, y, z) st) = x" "Y (readMotion (x, y, z) st) = y"
  "Z (readMotion (x, y, z) st) = z"
  by (simp_all add: readMotion_def)

lemma standingLoop_view:
  "finished k st \<Longrightarrow> view k (stateOf (standingLoop st ss)) = view k st"
proof (induction ss arbitrary: st)
  case Nil
  then show ?case by simp
next
  case (Cons s ss)
  let ?st = "emit [Delay 100] (readMotion s st)"
  from Cons.prems have f: "finished k ?st"
    by (simp add: finished_view)
  have v: "view k ?st = view k st" by simp
  consider (jj) "\<not> finishedJumpJacks ?st \<and> X ?st \<le> - 15"
    | (sq) "\<not> (\<not> finishedJumpJacks ?st \<and> X ?st \<le> - 15)" "\<not> finishedSquats ?st \<and> Z ?st < Y ?st"
    | (go) "\<not> (\<not> finishedJumpJacks ?st \<and> X ?st \<le> - 15)" "\<not> (\<not> finishedSquats ?st \<and> Z ?st < Y ?st)"
    by blast
  then show ?case
  proof cases
    case jj
    with f have "k \<noteq> JumpingJacks" by auto
    from track_view [OF this, of ?st ss] have "view k (stateOf (trackJumpJacks ?st ss)) = view k ?st"
      by simp
    from view_andThen_idle [OF this f] jj v show ?thesis
      by (auto simp add: standingLoop_unfold Let_def simp del: standingLoop.simps)
  next
    case sq
    with f have "k \<noteq> Squats" by auto
    from track_view [OF this, of ?st ss] have "view k (stateOf (trackSquats ?st ss)) = view k ?st"
      by simp
    from view_andThen_idle [OF this f] sq v show ?thesis
      by (auto simp add: standingLoop_unfold Let_def simp del: standingLoop.simps)
  next
    case go
    with Cons.IH [OF f] v show ?thesis
      by (auto simp add: standingLoop_unfold Let_def simp del: standingLoop.simps)
  qed
qed

lemma beginTracking_view:
  assumes "finished k st"
  shows "view k (stateOf (beginTracking st ss)) = view k st"
proof (cases ss)
  case Nil
  then show ?thesis by simp
next
  case (Cons s ss')
  let ?st = "readMotion s st"
  from assms have f: "finished k ?st"
    by (simp add: finished_view)
  have v: "view k ?st = view k st" by simp
  let ?out = "if X ?st < Y ?st \<and> Y ?st < Z ?st then standingLoop ?st ss'
         else if \<not> finishedPushUps ?st \<and> Y ?st > Z ?st \<and> Z ?st > X ?st then trackPushUps ?st ss'
         else if \<not> finishedSitUps ?st \<and> Z ?st > X ?st \<and> X ?st > Y ?st then trackSitUps ?st ss'
         else Returned ?st ss'"
  have "view k (stateOf ?out) = view k ?st"
  proof -
    have a: "view k (stateOf (standingLoop ?st ss')) = view k ?st"
      by (rule standingLoop_view [OF f])
    have b: "\<not> finishedPushUps ?st \<Longrightarrow> view k (stateOf (trackPushUps ?st ss')) = view k ?st"
      using track_view [of k Pushups ?st ss'] f by (cases k) auto
    have c: "\<not> finishedSitUps ?st \<Longrightarrow> view k (stateOf (trackSitUps ?st ss')) = view k ?st"
      using track_view [of k Situps ?st ss'] f by (cases k) auto
    from a b c show ?thesis by simp
  qed
  from view_andThen_idle [OF this f] Cons v show ?thesis
    by (simp only: beginTracking_unfold Let_def)
qed

lemma loop_view:
  assumes "finished k st"
  shows "view k (stateOf (loop pressed st ss)) = view k st"
proof (cases pressed)
  case True
  let ?st = "emit (fill WHITE @ [PlayTone 440 100]) st"
  have v: "view k ?st = view k st"
    by (cases k) (simp_all add: view_def filter_paints_fill colours_distinct)
  with assms have "finished k ?st"
    by (simp add: finished_view)
  from beginTracking_view [OF this, of ss] v True show ?thesis
    by (simp add: loop_def stateOf_andThen hw_emit setAllLeds_emit view_emit)
next
  case False
  then show ?thesis
    by (simp add: loop_def hw_emit view_emit)
qed

lemma runLoop_view:
  "finished k st \<Longrightarrow> view k (stateOf (runLoop polls st ss)) = view k st"
proof (induction polls arbitrary: st ss)
  case Nil
  then show ?case by simp
next
  case (Cons pressed polls)
  from loop_view [OF Cons.prems, of pressed ss]
  have v: "view k (stateOf (loop pressed st ss)) = view k st" .
  show ?case
  proof (cases "loop pressed st ss")
    case (Returned st' rest)
    with v Cons.prems have "finished k st'" "view k st' = view k st"
      by (simp_all add: finished_view)
    with Cons.IH [of st' rest] Returned show ?thesis by simp
  next
    case (Running st')
    with v show ?thesis by simp
  qed
qed


text \<open>A session opens with the blink in its own colour, which stays on the trace.\<close>

lemma whileLoop_trace:
  assumes "\<And>s l st. \<exists>cs. trace (snd (b s l st)) = trace st @ cs"
  shows "\<exists>cs. trace (stateOf (whileLoop g b l st ss)) = trace st @ cs"
proof (rule whileLoop_invariant [where P = "\<lambda>st'. \<exists>cs. trace st' = trace st @ cs"])
  show "\<exists>cs. trace st = trace st @ cs" by simp
next
  fix s l and st' :: state
  assume "\<exists>cs. trace st' = trace st @ cs"
  then obtain cs where "trace st' = trace st @ cs" ..
  moreover from assms [of s l st'] obtain ds where "trace (snd (b s l st')) = trace st' @ ds" ..
  ultimately show "\<exists>cs. trace (snd (b s l st')) = trace st @ cs" by simp
qed

lemma shape_trace:
  assumes "\<And>s l st. \<exists>cs. trace (snd (b s l st)) = trace st @ cs"
    and "\<And>st. \<exists>cs. trace (fin st) = trace st @ cs"
  shows "\<exists>cs. trace (stateOf (andThen (whileLoop g b l (emit (pre @ [ClearPixels]) st) ss) fin))
           = trace st @ pre @ cs"
proof -
  from whileLoop_trace [of b g l "emit (pre @ [ClearPixels]) st" ss, OF assms(1)]
  obtain cs where c: "trace (stateOf (whileLoop g b l (emit (pre @ [ClearPixels]) st) ss)) =
      trace st @ pre @ ClearPixels # cs"
    by auto
  from assms(2) [of "stateOf (whileLoop g b l (emit (pre @ [ClearPixels]) st) ss)"] c
  show ?thesis
    by (auto simp add: stateOf_andThen)
qed

lemma track_opens_with_blink:
  "\<exists>cs. trace (stateOf (track k st ss)) = trace st @ blink (colourOf k) @ cs"
proof (cases k)
  case JumpingJacks
  have "\<exists>cs. trace (stateOf (trackJumpJacks st ss)) = trace st @ blink GREEN @ cs"
    unfolding trackJumpJacks_shape
    by (rule shape_trace) (auto simp add: jumpJacksBody_eq)
  with JumpingJacks show ?thesis by simp
next
  case Squats
  have "\<exists>cs. trace (stateOf (trackSquats st ss)) = trace st @ blink BLUE @ cs"
    unfolding trackSquats_shape
    by (rule shape_trace) (auto simp add: squatsBody_eq)
  with Squats show ?thesis by simp
next
  case Situps
  have "\<exists>cs. trace (stateOf (trackSitUps st ss)) = trace st @ blink PURPLE @ cs"
    unfolding trackSitUps_shape
    by (rule shape_trace) (auto simp add: sitUpsBody_eq)
  with Situps show ?thesis by simp
next
  case Pushups
  have "\<exists>cs. trace (stateOf (trackPushUps st ss)) = trace st @ blink PINK @ cs"
    unfolding trackPushUps_shape
    by (rule shape_trace) (auto simp add: pushUpsBody_eq)
  with Pushups show ?thesis by simp
qed

lemma filter_paints_blink_own: "filter (paints c) (blink c) = fill c @ fill c"
  by (simp add: blink_def filter_paints_fill numeral_2_eq_2)

lemma fill_not_empty: "fill c \<noteq> []"
  by (simp add: fill_def upto_rec1)

lemma track_marks_trace:
  "filter (paints (colourOf k)) (trace (stateOf (track k st ss))) \<noteq>
   filter (paints (colourOf k)) (trace st)"
proof -
  from track_opens_with_blink [of k st ss] obtain cs where
    "trace (stateOf (track k st ss)) = trace st @ blink (colourOf k) @ cs" ..
  then show ?thesis
    by (simp add: filter_paints_blink_own fill_not_empty)
qed

subsection \<open>The menu, the classifier and whole runs\<close>

lemma pixels_after_clear:
  "pixels (tr @ ClearPixels # cs) = foldl pixelStep (\<lambda>i. 0) cs"
  by (simp add: pixels_def)

lemma menu_pixels:
  "pixels (trace (showMainMenu st)) i =
     (if \<not> finishedJumpJacks st \<and> i \<in> {0, 1} then GREEN
      else if \<not> finishedSquats st \<and> i \<in> {3, 4} then BLUE
      else if \<not> finishedSitUps st \<and> i \<in> {5, 6} then PURPLE
      else if \<not> finishedPushUps st \<and> i \<in> {8, 9} then PINK
      else 0)"
  by (simp add: showMainMenu_emit menu_def pixels_after_clear)

lemma standingLoop_blocked:
  "finishedJumpJacks st \<Longrightarrow> finishedSquats st \<Longrightarrow> \<not> hasReturned (standingLoop st ss)"
  by (induction ss arbitrary: st) (simp_all add: hw_emit Let_def)

lemma standing_both_finished_blocks:
  assumes "finishedJumpJacks st" and "finishedSquats st" and "x < y" and "y < z"
  shows "\<not> hasReturned (beginTracking st ((x, y, z) # ss)) \<and>
         \<not> hasReturned (loop True st ((x, y, z) # ss))"
  using assms
  by (simp add: loop_def standingLoop_blocked hw_emit setAllLeds_emit Let_def)

lemma view_routineState: "view k a = view k b \<Longrightarrow> routineState k a = routineState k b"
  by (simp add: view_def routineState_def)

lemma routineState_readMotion [simp]: "routineState k (readMotion s st) = routineState k st"
  by (cases k) (simp_all add: routineState_def)

lemma routineState_andThen_idle:
  "routineState k (stateOf (andThen out idle)) = routineState k (stateOf out)"
  by (simp add: stateOf_andThen idle_emit)

lemma standingLoop_routine:
  assumes "k \<noteq> JumpingJacks" and "k \<noteq> Squats"
  shows "routineState k (stateOf (standingLoop st ss)) = routineState k st"
proof (induction ss arbitrary: st)
  case Nil
  then show ?case by simp
next
  case (Cons s ss)
  let ?st = "emit [Delay 100] (readMotion s st)"
  have r: "routineState k ?st = routineState k st"
    by simp
  from view_routineState [OF track_view [OF assms(1), of ?st ss]]
  have jj: "routineState k (stateOf (andThen (trackJumpJacks ?st ss) idle)) = routineState k st"
    by (simp add: routineState_andThen_idle)
  from view_routineState [OF track_view [OF assms(2), of ?st ss]]
  have sq: "routineState k (stateOf (andThen (trackSquats ?st ss) idle)) = routineState k st"
    by (simp add: routineState_andThen_idle)
  from jj sq Cons.IH [of ?st] r show ?case
    by (simp add: standingLoop_unfold Let_def del: standingLoop.simps)
qed

lemma all_kinds: "(\<forall>k. P k) = (P JumpingJacks \<and> P Squats \<and> P Situps \<and> P Pushups)"
  by (metis ExerciseKind.exhaust)

lemma idleInv_routine: "idleInv st = (\<forall>k. routineOk (routineState k st))"
  by (simp add: idleInv_def kinds_def all_kinds routineState_def)

lemma idleInv_cong:
  "(\<And>k. routineState k st' = routineState k st) \<Longrightarrow> idleInv st' = idleInv st"
  by (simp add: idleInv_routine)

lemma idleInv_idle [simp]: "idleInv (idle st) = idleInv st"
  by (rule idleInv_cong) (simp add: idle_emit)

lemma track_idleInv:
  assumes "idleInv st" and "\<not> finished j st" and "hasReturned (track j st ss)"
  shows "idleInv (stateOf (track j st ss))"
proof -
  from assms(1) have "routineOk (routineState j st)"
    by (simp add: idleInv_routine)
  then have "completedReps j st \<le> 10"
    by (auto simp: routineState_def)
  from track_done [OF this assms(3)]
  have j: "routineState j (stateOf (track j st ss)) = (True, 10)"
    by (simp add: routineState_def)
  have "routineOk (routineState k (stateOf (track j st ss)))" for k
  proof (cases "k = j")
    case True
    with j show ?thesis by simp
  next
    case False
    from view_routineState [OF track_view [OF False, of st ss]] assms(1)
    show ?thesis by (simp add: idleInv_routine)
  qed
  then show ?thesis
    by (simp add: idleInv_routine)
qed

lemma idleInv_step [simp]: "idleInv (emit cs st) = idleInv st" "idleInv (readMotion s st) = idleInv st"
  by (rule idleInv_cong, simp)+

lemma standingLoop_idleInv:
  "idleInv st \<Longrightarrow> hasReturned (standingLoop st ss) \<Longrightarrow> idleInv (stateOf (standingLoop st ss))"
proof (induction ss arbitrary: st)
  case Nil
  then show ?case by simp
next
  case (Cons s ss)
  let ?st = "emit [Delay 100] (readMotion s st)"
  from Cons.prems(1) have i: "idleInv ?st" by simp
  consider (jj) "\<not> finishedJumpJacks ?st \<and> X ?st \<le> - 15"
    | (sq) "\<not> (\<not> finishedJumpJacks ?st \<and> X ?st \<le> - 15)" "\<not> finishedSquats ?st \<and> Z ?st < Y ?st"
    | (go) "\<not> (\<not> finishedJumpJacks ?st \<and> X ?st \<le> - 15)" "\<not> (\<not> finishedSquats ?st \<and> Z ?st < Y ?st)"
    by blast
  then show ?case
  proof cases
    case jj
    with Cons.prems(2) have "hasReturned (trackJumpJacks ?st ss)"
      by (auto simp add: standingLoop_unfold Let_def simp del: standingLoop.simps)
    with track_idleInv [OF i, of JumpingJacks ss] jj
    have "idleInv (stateOf (trackJumpJacks ?st ss))" by simp
    with jj \<open>hasReturned (trackJumpJacks ?st ss)\<close> show ?thesis
      by (auto simp add: standingLoop_unfold stateOf_andThen Let_def simp del: standingLoop.simps)
  next
    case sq
    with Cons.prems(2) have "hasReturned (trackSquats ?st ss)"
      by (auto simp add: standingLoop_unfold Let_def simp del: standingLoop.simps)
    with track_idleInv [OF i, of Squats ss] sq
    have "idleInv (stateOf (trackSquats ?st ss))" by simp
    with sq \<open>hasReturned (trackSquats ?st ss)\<close> show ?thesis
      by (auto simp add: standingLoop_unfold stateOf_andThen Let_def simp del: standingLoop.simps)
  next
    case go
    with Cons.prems(2) have "hasReturned (standingLoop ?st ss)"
      by (auto simp add: standingLoop_unfold Let_def simp del: standingLoop.simps)
    from Cons.IH [OF i this] go show ?thesis
      by (auto simp add: standingLoop_unfold Let_def simp del: standingLoop.simps)
  qed
qed

lemma beginTracking_idleInv:
  assumes "idleInv st" and "hasReturned (beginTracking st ss)"
  shows "idleInv (stateOf (beginTracking st ss))"
proof (cases ss)
  case Nil
  with assms show ?thesis by simp
next
  case (Cons s ss')
  let ?st = "readMotion s st"
  let ?out = "if X ?st < Y ?st \<and> Y ?st < Z ?st then standingLoop ?st ss'
         else if \<not> finishedPushUps ?st \<and> Y ?st > Z ?st \<and> Z ?st > X ?st then trackPushUps ?st ss'
         else if \<not> finishedSitUps ?st \<and> Z ?st > X ?st \<and> X ?st > Y ?st then trackSitUps ?st ss'
         else Returned ?st ss'"
  from assms(1) have i: "idleInv ?st" by simp
  have b: "beginTracking st ss = andThen ?out idle"
    by (simp only: Cons beginTracking_unfold Let_def)
  with assms(2) have r: "hasReturned ?out" by simp
  have "idleInv (stateOf ?out)"
  proof -
    have a: "hasReturned (standingLoop ?st ss') \<Longrightarrow> idleInv (stateOf (standingLoop ?st ss'))"
      by (rule standingLoop_idleInv [OF i])
    have p: "\<not> finishedPushUps ?st \<Longrightarrow> hasReturned (trackPushUps ?st ss') \<Longrightarrow>
        idleInv (stateOf (trackPushUps ?st ss'))"
      using track_idleInv [OF i, of Pushups ss'] by simp
    have c: "\<not> finishedSitUps ?st \<Longrightarrow> hasReturned (trackSitUps ?st ss') \<Longrightarrow>
        idleInv (stateOf (trackSitUps ?st ss'))"
      using track_idleInv [OF i, of Situps ss'] by simp
    from a p c r i show ?thesis
      by (auto split: if_splits)
  qed
  with r show ?thesis
    by (simp add: b stateOf_andThen)
qed

lemma loop_idleInv:
  assumes "idleInv st" and "hasReturned (loop pressed st ss)"
  shows "idleInv (stateOf (loop pressed st ss))"
proof (cases pressed)
  case True
  let ?st = "emit (fill WHITE @ [PlayTone 440 100]) st"
  from assms(1) have i: "idleInv ?st" by simp
  from assms(2) True have "hasReturned (beginTracking ?st ss)"
    by (simp add: loop_def hw_emit setAllLeds_emit)
  from beginTracking_idleInv [OF i this] this True show ?thesis
    by (simp add: loop_def stateOf_andThen hw_emit setAllLeds_emit)
next
  case False
  with assms(1) show ?thesis
    by (simp add: loop_def hw_emit)
qed

lemma runLoop_idleInv:
  "idleInv st \<Longrightarrow> hasReturned (runLoop polls st ss) \<Longrightarrow> idleInv (stateOf (runLoop polls st ss))"
proof (induction polls arbitrary: st ss)
  case Nil
  then show ?case by simp
next
  case (Cons pressed polls)
  show ?case
  proof (cases "loop pressed st ss")
    case (Returned st' rest)
    with loop_idleInv [OF Cons.prems(1), of pressed ss] have "idleInv st'" by simp
    with Cons.IH [of st' rest] Cons.prems(2) Returned show ?thesis by simp
  next
    case (Running st')
    with Cons.prems(2) show ?thesis by simp
  qed
qed

lemma idleInv_setup: "idleInv (setup' powerOn)"
  by (simp add: setup'_def showMainMenu_emit hw_emit)
     (simp add: idleInv_def kinds_def powerOn_def)

lemma replicate_10: "replicate 10 x = [x, x, x, x, x, x, x, x, x, x]"
  by (simp add: eval_nat_numeral)

lemma replicate_9: "replicate 9 x = [x, x, x, x, x, x, x, x, x]"
  by (simp add: eval_nat_numeral)

lemma replicate_19:
  "replicate 19 x = [x, x, x, x, x, x, x, x, x, x, x, x, x, x, x, x, x, x, x]"
  by (simp add: eval_nat_numeral)

lemmas run_simps = sketch_def loop_def setup'_def showMainMenu_emit hw_emit setAllLeds_emit
  blinkAnimLed_emit victorySong_emit trackSitUps_def trackPushUps_def trackSquats_def
  trackJumpJacks_def sitUpsBody_eq pushUpsBody_eq squatsBody_eq jumpJacksBody_eq REPS_def
  DEBOUNCE_def Let_def replicate_10 replicate_9 replicate_19

lemma situpSession_run:
  "hasReturned (sketch [True] situpSession) \<and>
   finishedSitUps (stateOf (sketch [True] situpSession)) \<and>
   numOfSitUps (stateOf (sketch [True] situpSession)) = 10"
  by (simp add: situpSession_def run_simps powerOn_def)

lemma loops_done:
  "\<not> numOfSitUps st < REPS \<Longrightarrow> sitUpsLoop b st ss = Returned st ss"
  "\<not> numOfPushUps st < REPS \<Longrightarrow> pushUpsLoop b st ss = Returned st ss"
  "\<not> numOfSquats st < REPS \<Longrightarrow> squatsLoop b st ss = Returned st ss"
  "\<not> numOfJumpJacks st < REPS \<Longrightarrow> jumpJacksLoop n st ss = Returned st ss"
  by (cases ss; simp)+

lemma runLoop_append:
  "runLoop (ps @ qs) st ss =
     (case runLoop ps st ss of
        Returned st' rest \<Rightarrow> runLoop qs st' rest
      | Running st' \<Rightarrow> Running st')"
  by (induction ps arbitrary: st ss) (simp_all split: outcome.splits)

lemma bothSessions_run:
  "\<exists>st. sketch [True, True] (jumpJackSession @ squatSession @ later) = Returned st later \<and>
        finishedJumpJacks st \<and> finishedSquats st"
  by (simp add: jumpJackSession_def squatSession_def run_simps powerOn_def loops_done)

subsection \<open>The loops count what the specification counts\<close>

lemma sitUpsLoop_exact:
  "numOfSitUps st \<le> 10 \<Longrightarrow>
   numOfSitUps (stateOf (sitUpsLoop isUp st ss)) =
     min 10 (numOfSitUps st +
       int (returnsCounted (\<lambda>(x, y, z). x < y) (\<lambda>(x, y, z). y < x) isUp ss))"
  by (induction ss arbitrary: isUp st) (auto simp add: sitUpsBody_eq REPS_def)

lemma pushUpsLoop_exact:
  "numOfPushUps st \<le> 10 \<Longrightarrow>
   numOfPushUps (stateOf (pushUpsLoop isDown st ss)) =
     min 10 (numOfPushUps st +
       int (returnsCounted (\<lambda>(x, y, z). z < x) (\<lambda>(x, y, z). x < z) isDown ss))"
  by (induction ss arbitrary: isDown st) (auto simp add: pushUpsBody_eq REPS_def)

lemma squatsLoop_exact:
  "numOfSquats st \<le> 10 \<Longrightarrow>
   numOfSquats (stateOf (squatsLoop isDown st ss)) =
     min 10 (numOfSquats st +
       int (returnsCounted (\<lambda>(x, y, z). z < y) (\<lambda>(x, y, z). y < z) isDown ss))"
  by (induction ss arbitrary: isDown st) (auto simp add: squatsBody_eq REPS_def)

lemma jumpJacksLoop_exact:
  "numOfJumpJacks st \<le> 10 \<Longrightarrow>
   numOfJumpJacks (stateOf (jumpJacksLoop totalJumps st ss)) =
     min 10 (numOfJumpJacks st + int (evenJumps totalJumps ss))"
  by (induction ss arbitrary: totalJumps st) (auto simp add: jumpJacksBody_eq REPS_def)

lemma track_exact:
  "(numOfSitUps st \<le> 10 \<longrightarrow>
      numOfSitUps (stateOf (trackSitUps st ss)) =
        min 10 (numOfSitUps st +
          int (returnsCounted (\<lambda>(x, y, z). x < y) (\<lambda>(x, y, z). y < x) False ss))) \<and>
   (numOfPushUps st \<le> 10 \<longrightarrow>
      numOfPushUps (stateOf (trackPushUps st ss)) =
        min 10 (numOfPushUps st +
          int (returnsCounted (\<lambda>(x, y, z). z < x) (\<lambda>(x, y, z). x < z) False ss))) \<and>
   (numOfSquats st \<le> 10 \<longrightarrow>
      numOfSquats (stateOf (trackSquats st ss)) =
        min 10 (numOfSquats st +
          int (returnsCounted (\<lambda>(x, y, z). z < y) (\<lambda>(x, y, z). y < z) True ss))) \<and>
   (numOfJumpJacks st \<le> 10 \<longrightarrow>
      numOfJumpJacks (stateOf (trackJumpJacks st ss)) =
        min 10 (numOfJumpJacks st + int (evenJumps 1 ss)))"
  using sitUpsLoop_exact [of "emit (blink PURPLE @ [ClearPixels]) st" False ss]
    pushUpsLoop_exact [of "emit (blink PINK @ [ClearPixels]) st" False ss]
    squatsLoop_exact [of "emit (blink BLUE @ [ClearPixels]) st" True ss]
    jumpJacksLoop_exact [of "emit (blink GREEN @ [ClearPixels]) st" 1 ss]
  by (simp add: trackSitUps_count trackPushUps_count trackSquats_count trackJumpJacks_count
      sitUpsLoop_while [symmetric] pushUpsLoop_while [symmetric] squatsLoop_while [symmetric]
      jumpJacksLoop_while [symmetric])

lemma bodies_by_reading:
  "fst (sitUpsBody (x, y, z) isUp st) = (if isUp then \<not> y < x else x < y) \<and>
   numOfSitUps (snd (sitUpsBody (x, y, z) isUp st)) =
     (if isUp \<and> y < x then numOfSitUps st + 1 else numOfSitUps st) \<and>
   fst (pushUpsBody (x, y, z) isDown st) = (if isDown then \<not> x < z else z < x) \<and>
   numOfPushUps (snd (pushUpsBody (x, y, z) isDown st)) =
     (if isDown \<and> x < z then numOfPushUps st + 1 else numOfPushUps st) \<and>
   fst (squatsBody (x, y, z) isDown st) = (if isDown then \<not> y < z else z < y) \<and>
   numOfSquats (snd (squatsBody (x, y, z) isDown st)) =
     (if isDown \<and> y < z then numOfSquats st + 1 else numOfSquats st) \<and>
   fst (jumpJacksBody (x, y, z) totalJumps st) =
     (if x \<le> - 15 then totalJumps + 1 else totalJumps) \<and>
   numOfJumpJacks (snd (jumpJacksBody (x, y, z) totalJumps st)) =
     (if x \<le> - 15 \<and> even (totalJumps + 1) then numOfJumpJacks st + 1
      else numOfJumpJacks st)"
  by (simp add: sitUpsBody_eq pushUpsBody_eq squatsBody_eq jumpJacksBody_eq)

lemma counter_along_stream:
  "completedReps k st \<le> completedReps k (stateOf (track k st ss)) \<and>
   completedReps k (stateOf (track k st ss)) \<le> completedReps k (stateOf (track k st (ss @ ts))) \<and>
   completedReps k (stateOf (track k st (ss @ [s]))) \<le> completedReps k (stateOf (track k st ss)) + 1 \<and>
   (0 \<le> completedReps k st \<and> completedReps k st \<le> 10 \<longrightarrow>
      0 \<le> completedReps k (stateOf (track k st ss)) \<and>
      completedReps k (stateOf (track k st ss)) \<le> 10) \<and>
   numOfSitUps (snd (sitUpsBody s isUp st)) =
     (if isUp \<and> \<not> fst (sitUpsBody s isUp st) then numOfSitUps st + 1 else numOfSitUps st) \<and>
   numOfPushUps (snd (pushUpsBody s isDown st)) =
     (if isDown \<and> \<not> fst (pushUpsBody s isDown st) then numOfPushUps st + 1
      else numOfPushUps st) \<and>
   numOfSquats (snd (squatsBody s isDown st)) =
     (if isDown \<and> \<not> fst (squatsBody s isDown st) then numOfSquats st + 1
      else numOfSquats st) \<and>
   numOfJumpJacks (snd (jumpJacksBody s totalJumps st)) =
     (if fst (jumpJacksBody s totalJumps st) = totalJumps + 1 \<and> even (totalJumps + 1)
      then numOfJumpJacks st + 1 else numOfJumpJacks st)"
proof -
  obtain x y z where s: "s = (x, y, z)" by (cases s)
  have bodies:
    "numOfSitUps (snd (sitUpsBody s isUp st)) =
       (if isUp \<and> \<not> fst (sitUpsBody s isUp st) then numOfSitUps st + 1 else numOfSitUps st)"
    "numOfPushUps (snd (pushUpsBody s isDown st)) =
       (if isDown \<and> \<not> fst (pushUpsBody s isDown st) then numOfPushUps st + 1
        else numOfPushUps st)"
    "numOfSquats (snd (squatsBody s isDown st)) =
       (if isDown \<and> \<not> fst (squatsBody s isDown st) then numOfSquats st + 1
        else numOfSquats st)"
    "numOfJumpJacks (snd (jumpJacksBody s totalJumps st)) =
       (if fst (jumpJacksBody s totalJumps st) = totalJumps + 1 \<and> even (totalJumps + 1)
        then numOfJumpJacks st + 1 else numOfJumpJacks st)"
    by (simp_all add: s sitUpsBody_eq pushUpsBody_eq squatsBody_eq jumpJacksBody_eq)
  from track_counter [of k st ss ts s] have stream:
    "completedReps k st \<le> completedReps k (stateOf (track k st ss))"
    "completedReps k (stateOf (track k st ss)) \<le> completedReps k (stateOf (track k st (ss @ ts)))"
    "completedReps k (stateOf (track k st (ss @ [s]))) \<le> completedReps k (stateOf (track k st ss)) + 1"
    "completedReps k st \<le> 10 \<longrightarrow> completedReps k (stateOf (track k st ss)) \<le> 10"
    by simp_all
  from stream(1,4) have "0 \<le> completedReps k st \<and> completedReps k st \<le> 10 \<longrightarrow>
      0 \<le> completedReps k (stateOf (track k st ss)) \<and>
      completedReps k (stateOf (track k st ss)) \<le> 10"
    by linarith
  with stream(1,2,3) bodies show ?thesis
    by blast
qed

section \<open>The scenarios of the specification\<close>

text \<open>
  Claim C8. A sit-up session that starts with no repetition counted is fed the readings
  \<open>x=5, y=1\<close> (down), \<open>x=1, y=5\<close> (up), \<open>x=5, y=1\<close> (down), with any \<open>z\<close>. The
  counter is 0 after the first and after the second reading and 1 after the third, and
  the calls made show one repetition event (pixel 0 in purple and the 440 Hz tone), made
  at the third reading: before it the loop has only waited twice.
\<close>

theorem C8_situps_scenario:
  assumes "numOfSitUps st = 0"
  shows "numOfSitUps (stateOf (trackSitUps st [(5, 1, z1)])) = 0 \<and>
         numOfSitUps (stateOf (trackSitUps st [(5, 1, z1), (1, 5, z2)])) = 0 \<and>
         numOfSitUps (stateOf (trackSitUps st [(5, 1, z1), (1, 5, z2), (5, 1, z3)])) = 1 \<and>
         trace (stateOf (trackSitUps st [(5, 1, z1), (1, 5, z2)])) =
           trace st @ blink PURPLE @ [ClearPixels, Delay 100, Delay 100] \<and>
         trace (stateOf (trackSitUps st [(5, 1, z1), (1, 5, z2), (5, 1, z3)])) =
           trace st @ blink PURPLE @
             [ClearPixels, Delay 100, Delay 100,
              SetPixelColor 0 PURPLE, PlayTone 440 100, Delay 100]"
  using assms
  by (simp add: trackSitUps_def blinkAnimLed_emit hw_emit sitUpsBody_eq REPS_def)

theorem C8_situps_scenario_witness:
  "numOfSitUps powerOn = 0 \<and>
   numOfSitUps (stateOf (trackSitUps powerOn [(5, 1, 0), (1, 5, 0), (5, 1, 0)])) = 1"
proof -
  have h: "numOfSitUps powerOn = 0"
    by (simp add: powerOn_def)
  from C8_situps_scenario [OF h, of 0 0 0] h show ?thesis
    by simp
qed

text \<open>
  Claim C7. A jumping-jack session that starts with no repetition counted creates its
  jump counter at 1 and is fed four readings with \<open>x = -20\<close>, any \<open>y\<close> and \<open>z\<close>. The
  readings are jumps 2, 3, 4 and 5. The repetition counter is 1, 1, 2, 2 after them: the
  repetition events (pixels 0 and 1 in green, each with the tone) are made at the readings
  that make the jump counter 2 and 4 and at no other, and the counter ends at 2.
\<close>

theorem C7_jumpjacks_scenario:
  assumes "numOfJumpJacks st = 0"
  shows "numOfJumpJacks (stateOf (trackJumpJacks st [(- 20, y1, z1)])) = 1 \<and>
         numOfJumpJacks (stateOf (trackJumpJacks st [(- 20, y1, z1), (- 20, y2, z2)])) = 1 \<and>
         numOfJumpJacks (stateOf (trackJumpJacks st
            [(- 20, y1, z1), (- 20, y2, z2), (- 20, y3, z3)])) = 2 \<and>
         numOfJumpJacks (stateOf (trackJumpJacks st
            [(- 20, y1, z1), (- 20, y2, z2), (- 20, y3, z3), (- 20, y4, z4)])) = 2 \<and>
         trace (stateOf (trackJumpJacks st
            [(- 20, y1, z1), (- 20, y2, z2), (- 20, y3, z3), (- 20, y4, z4)])) =
           trace st @ blink GREEN @
             [ClearPixels,
              SetPixelColor 0 GREEN, PlayTone 440 100, Delay 150,
              Delay 150,
              SetPixelColor 1 GREEN, PlayTone 440 100, Delay 150,
              Delay 150]"
  using assms
  by (simp add: trackJumpJacks_def blinkAnimLed_emit hw_emit jumpJacksBody_eq REPS_def)

theorem C7_jumpjacks_scenario_witness:
  "numOfJumpJacks powerOn = 0 \<and>
   numOfJumpJacks (stateOf (trackJumpJacks powerOn
      [(- 20, 0, 0), (- 20, 0, 0), (- 20, 0, 0), (- 20, 0, 0)])) = 2"
proof -
  have h: "numOfJumpJacks powerOn = 0"
    by (simp add: powerOn_def)
  from C7_jumpjacks_scenario [OF h, of 0 0 0 0 0 0 0 0] h show ?thesis
    by simp
qed

text \<open>
  Claim C6. A squat session that starts with no repetition counted and is fed ten full
  cycles (a reading with \<open>z < y\<close>, then one with \<open>z > y\<close>, ten times) consumes all twenty
  readings and returns with the counter at 10 and \<open>finishedSquats\<close> set. The calls it has
  made are the opening blink, ten times the wait of the down reading followed by one
  repetition event, and then, once, all pixels in blue and the six notes of the victory
  song: the song occurs once in the calls of the session, at their end.
\<close>

theorem C6_squats_ten_cycles:
  assumes "squatCycles 10 ss" and "numOfSquats st = 0"
  shows "\<exists>st'. trackSquats st ss = Returned st' [] \<and>
           numOfSquats st' = 10 \<and> finishedSquats st' \<and>
           trace st' = trace st @ blink BLUE @ [ClearPixels] @
             concat (map (\<lambda>i. [Delay 250, SetPixelColor i BLUE, PlayTone 440 100, Delay 250])
                       [0..9]) @
             fill BLUE @ song \<and>
           occurrences (fill BLUE @ song) (drop (length (trace st)) (trace st')) = 1 \<and>
           occurrences song (drop (length (trace st)) (trace st')) = 1"
proof -
  let ?st0 = "emit (blink BLUE @ [ClearPixels]) st"
  from assms(2) have "numOfSquats ?st0 + int 10 \<le> 10" by simp
  from squatsLoop_cycles [OF assms(1) this, of True "[]"] obtain st1 where
    l: "squatsLoop True ?st0 ss = squatsLoop False st1 []"
    and n: "numOfSquats st1 = 10"
    and t: "trace st1 = trace ?st0 @ squatEvents (numOfSquats ?st0) 10"
    using assms(2) by auto
  let ?st' = "(emit (fill BLUE @ song) st1)\<lparr>finishedSquats := True\<rparr>"
  from l n have r: "trackSquats st ss = Returned ?st' []"
    by (simp add: trackSquats_def blinkAnimLed_emit hw_emit setAllLeds_emit victorySong_emit
        REPS_def Let_def)
  from t assms(2) have t': "trace ?st' = trace st @ blink BLUE @ [ClearPixels] @
             concat (map (\<lambda>i. [Delay 250, SetPixelColor i BLUE, PlayTone 440 100, Delay 250])
                       [0..9]) @ fill BLUE @ song"
    by (simp add: squatEvents_10)
  have o1: "occurrences (fill BLUE @ song) (blink BLUE @ [ClearPixels] @
             concat (map (\<lambda>i. [Delay 250, SetPixelColor i BLUE, PlayTone 440 100, Delay 250])
                       [0..9]) @ fill BLUE @ song) = 1"
    by (simp add: fill_def song_def blink_def upto_rec1 numeral_2_eq_2)
  have o2: "occurrences song (blink BLUE @ [ClearPixels] @
             concat (map (\<lambda>i. [Delay 250, SetPixelColor i BLUE, PlayTone 440 100, Delay 250])
                       [0..9]) @ fill BLUE @ song) = 1"
    by (simp add: fill_def song_def blink_def upto_rec1 numeral_2_eq_2)
  from r n t' o1 o2 show ?thesis
    by (intro exI [of _ ?st']) simp
qed

theorem C6_squats_ten_cycles_witness:
  "squatCycles 10 (concat (replicate 10 [(0, 1, 0), (0, 0, 1)])) \<and>
   numOfSquats powerOn = 0 \<and>
   hasReturned (trackSquats powerOn (concat (replicate 10 [(0, 1, 0), (0, 0, 1)]))) \<and>
   numOfSquats (stateOf (trackSquats powerOn (concat (replicate 10 [(0, 1, 0), (0, 0, 1)])))) = 10 \<and>
   finishedSquats (stateOf (trackSquats powerOn (concat (replicate 10 [(0, 1, 0), (0, 0, 1)]))))"
proof -
  have c: "squatCycles 10 (concat (replicate 10 [(0, 1, 0), (0, 0, 1)]))"
    by (simp add: eval_nat_numeral)
  have h: "numOfSquats powerOn = 0"
    by (simp add: powerOn_def)
  from C6_squats_ten_cycles [OF c h] c h show ?thesis
    by auto
qed

text \<open>
  Claim C10. The squat loop is entered with \<open>isDownSquat = true\<close>: with room for a
  repetition, a first reading with \<open>z > y\<close> is counted at once, and the repetition event
  is the first thing the session does after its opening blink. The sit-up and push-up
  loops are entered with their variable \<open>false\<close>, the phase in which they count nothing:
  their first reading never counts, whatever it is, and no reading counts as long as no
  reading has shown the active side (\<open>x < y\<close> for sit-ups, \<open>z < x\<close> for push-ups).
\<close>

theorem C10_initial_phases:
  "(numOfSquats st < 10 \<and> y < z \<longrightarrow>
      numOfSquats (stateOf (trackSquats st [(x, y, z)])) = numOfSquats st + 1 \<and>
      trace (stateOf (trackSquats st [(x, y, z)])) =
        trace st @ blink BLUE @
          [ClearPixels, SetPixelColor (numOfSquats st) BLUE, PlayTone 440 100, Delay 250] @
          (if numOfSquats st = 9 then fill BLUE @ song else [])) \<and>
   numOfSitUps (stateOf (trackSitUps st [s])) = numOfSitUps st \<and>
   numOfPushUps (stateOf (trackPushUps st [s])) = numOfPushUps st \<and>
   (list_all (\<lambda>(x, y, z). \<not> x < y) ss \<longrightarrow>
      numOfSitUps (stateOf (trackSitUps st ss)) = numOfSitUps st) \<and>
   (list_all (\<lambda>(x, y, z). \<not> z < x) ss \<longrightarrow>
      numOfPushUps (stateOf (trackPushUps st ss)) = numOfPushUps st)"
proof -
  have squat: "numOfSquats st < 10 \<and> y < z \<longrightarrow>
      numOfSquats (stateOf (trackSquats st [(x, y, z)])) = numOfSquats st + 1 \<and>
      trace (stateOf (trackSquats st [(x, y, z)])) =
        trace st @ blink BLUE @
          [ClearPixels, SetPixelColor (numOfSquats st) BLUE, PlayTone 440 100, Delay 250] @
          (if numOfSquats st = 9 then fill BLUE @ song else [])"
    by (simp add: trackSquats_def blinkAnimLed_emit hw_emit squatsBody_eq REPS_def
        setAllLeds_emit victorySong_emit Let_def)
  obtain a b c where s: "s = (a, b, c)" by (cases s)
  have sit1: "numOfSitUps (stateOf (trackSitUps st [s])) = numOfSitUps st"
    by (simp add: s trackSitUps_def blinkAnimLed_emit hw_emit sitUpsBody_eq REPS_def
        setAllLeds_emit victorySong_emit Let_def)
  have push1: "numOfPushUps (stateOf (trackPushUps st [s])) = numOfPushUps st"
    by (simp add: s trackPushUps_def blinkAnimLed_emit hw_emit pushUpsBody_eq REPS_def
        setAllLeds_emit victorySong_emit Let_def)
  have sit: "list_all (\<lambda>(x, y, z). \<not> x < y) ss \<longrightarrow>
      numOfSitUps (stateOf (trackSitUps st ss)) = numOfSitUps st"
    by (simp add: trackSitUps_def stateOf_andThen sitUpsLoop_reference blinkAnimLed_emit
        hw_emit setAllLeds_emit victorySong_emit Let_def)
  have push: "list_all (\<lambda>(x, y, z). \<not> z < x) ss \<longrightarrow>
      numOfPushUps (stateOf (trackPushUps st ss)) = numOfPushUps st"
    by (simp add: trackPushUps_def stateOf_andThen pushUpsLoop_reference blinkAnimLed_emit
        hw_emit setAllLeds_emit victorySong_emit Let_def)
  from squat sit1 push1 sit push show ?thesis by blast
qed

theorem C10_initial_phases_witness:
  "numOfSquats powerOn < 10 \<and> (1::real) < 2 \<and>
   numOfSquats (stateOf (trackSquats powerOn [(0, 1, 2)])) = numOfSquats powerOn + 1 \<and>
   list_all (\<lambda>(x, y, z). \<not> x < y) ([(5, 1, 7), (6, 2, 8)] :: sample list) \<and>
   numOfSitUps (stateOf (trackSitUps powerOn [(5, 1, 7), (6, 2, 8)])) = numOfSitUps powerOn \<and>
   list_all (\<lambda>(x, y, z). \<not> z < x) ([(5, 1, 7), (6, 2, 8)] :: sample list) \<and>
   numOfPushUps (stateOf (trackPushUps powerOn [(5, 1, 7), (6, 2, 8)])) = numOfPushUps powerOn"
proof -
  have h: "numOfSquats powerOn < 10"
    by (simp add: powerOn_def)
  from C10_initial_phases [of powerOn 1 2 0 "(0, 0, 0)" "[(5, 1, 7), (6, 2, 8)]"] h
  show ?thesis
    by simp
qed

section \<open>Properties of the repetition detectors\<close>

text \<open>
  Claim C1. \<open>track k\<close> is the detector of kind \<open>k\<close>, \<open>ss\<close> the readings fed to it, and
  \<open>stateOf (track k st ss)\<close> the state it has reached when they are used up (or when it
  has returned). For each of the four detectors:
  \<^item> the counter never falls below its value at the start of the session, and its value
    after the readings \<open>ss\<close> is at most its value after any longer sequence \<open>ss @ ts\<close>;
  \<^item> one more reading raises it by 1 at most;
  \<^item> started in \<open>[0,10]\<close> it stays in \<open>[0,10]\<close>;
  \<^item> a tick adds exactly 1 when it takes the phase variable from true (the active phase)
    to false (the reference phase), and nothing otherwise; for jumping jacks, when it
    registers a jump that makes the jump counter even;
  \<^item> on the readings: the sit-up variable becomes true on \<open>x < y\<close> and false again on
    \<open>x > y\<close>, the push-up variable true on \<open>z < x\<close> and false on \<open>z > x\<close>, the squat
    variable true on \<open>z < y\<close> and false on \<open>z > y\<close>, and a tick counts exactly when the
    variable is true and the reading is the one that makes it false: the return to the
    reference side, never the reading that enters the active side. The jump counter
    grows by one on \<open>x \<le> -15\<close> and the tick counts exactly when that makes it even;
  \<^item> over a whole session: started at 10 or below, the counter at the end is its value
    at the start plus the number of returns to the reference side in the readings (for
    jumping jacks, the number of jumps that make the count of jumps even, counted from
    1), capped at 10, where the loop stops reading. The sit-up and push-up sessions
    start outside the active phase, the squat session inside it.
\<close>

theorem C1_counter_monotone_bounded_exact:
  "completedReps k st \<le> completedReps k (stateOf (track k st ss)) \<and>
   completedReps k (stateOf (track k st ss)) \<le> completedReps k (stateOf (track k st (ss @ ts))) \<and>
   completedReps k (stateOf (track k st (ss @ [s]))) \<le> completedReps k (stateOf (track k st ss)) + 1 \<and>
   (0 \<le> completedReps k st \<and> completedReps k st \<le> 10 \<longrightarrow>
      0 \<le> completedReps k (stateOf (track k st ss)) \<and>
      completedReps k (stateOf (track k st ss)) \<le> 10) \<and>
   numOfSitUps (snd (sitUpsBody s isUp st)) =
     (if isUp \<and> \<not> fst (sitUpsBody s isUp st) then numOfSitUps st + 1 else numOfSitUps st) \<and>
   numOfPushUps (snd (pushUpsBody s isDown st)) =
     (if isDown \<and> \<not> fst (pushUpsBody s isDown st) then numOfPushUps st + 1
      else numOfPushUps st) \<and>
   numOfSquats (snd (squatsBody s isDown st)) =
     (if isDown \<and> \<not> fst (squatsBody s isDown st) then numOfSquats st + 1
      else numOfSquats st) \<and>
   numOfJumpJacks (snd (jumpJacksBody s totalJumps st)) =
     (if fst (jumpJacksBody s totalJumps st) = totalJumps + 1 \<and> even (totalJumps + 1)
      then numOfJumpJacks st + 1 else numOfJumpJacks st) \<and>
   fst (sitUpsBody (x, y, z) isUp st) = (if isUp then \<not> y < x else x < y) \<and>
   numOfSitUps (snd (sitUpsBody (x, y, z) isUp st)) =
     (if isUp \<and> y < x then numOfSitUps st + 1 else numOfSitUps st) \<and>
   fst (pushUpsBody (x, y, z) isDown st) = (if isDown then \<not> x < z else z < x) \<and>
   numOfPushUps (snd (pushUpsBody (x, y, z) isDown st)) =
     (if isDown \<and> x < z then numOfPushUps st + 1 else numOfPushUps st) \<and>
   fst (squatsBody (x, y, z) isDown st) = (if isDown then \<not> y < z else z < y) \<and>
   numOfSquats (snd (squatsBody (x, y, z) isDown st)) =
     (if isDown \<and> y < z then numOfSquats st + 1 else numOfSquats st) \<and>
   fst (jumpJacksBody (x, y, z) totalJumps st) =
     (if x \<le> - 15 then totalJumps + 1 else totalJumps) \<and>
   numOfJumpJacks (snd (jumpJacksBody (x, y, z) totalJumps st)) =
     (if x \<le> - 15 \<and> even (totalJumps + 1) then numOfJumpJacks st + 1
      else numOfJumpJacks st) \<and>
   (numOfSitUps st \<le> 10 \<longrightarrow>
      numOfSitUps (stateOf (trackSitUps st ss)) =
        min 10 (numOfSitUps st +
          int (returnsCounted (\<lambda>(x, y, z). x < y) (\<lambda>(x, y, z). y < x) False ss))) \<and>
   (numOfPushUps st \<le> 10 \<longrightarrow>
      numOfPushUps (stateOf (trackPushUps st ss)) =
        min 10 (numOfPushUps st +
          int (returnsCounted (\<lambda>(x, y, z). z < x) (\<lambda>(x, y, z). x < z) False ss))) \<and>
   (numOfSquats st \<le> 10 \<longrightarrow>
      numOfSquats (stateOf (trackSquats st ss)) =
        min 10 (numOfSquats st +
          int (returnsCounted (\<lambda>(x, y, z). z < y) (\<lambda>(x, y, z). y < z) True ss))) \<and>
   (numOfJumpJacks st \<le> 10 \<longrightarrow>
      numOfJumpJacks (stateOf (trackJumpJacks st ss)) =
        min 10 (numOfJumpJacks st + int (evenJumps 1 ss)))"
  using counter_along_stream [of k st ss ts s isUp isDown totalJumps]
    bodies_by_reading [of x y z isUp st isDown totalJumps] track_exact [of st ss]
  by blast

theorem C1_counter_monotone_bounded_exact_witness:
  "0 \<le> completedReps Situps powerOn \<and> completedReps Situps powerOn \<le> 10 \<and>
   0 \<le> completedReps Situps (stateOf (track Situps powerOn [(1, 5, 0), (5, 1, 0)])) \<and>
   completedReps Situps (stateOf (track Situps powerOn [(1, 5, 0), (5, 1, 0)])) \<le> 10 \<and>
   numOfSitUps powerOn \<le> 10 \<and>
   numOfSitUps (stateOf (trackSitUps powerOn [(1, 5, 0), (5, 1, 0)])) = 1 \<and>
   numOfPushUps powerOn \<le> 10 \<and>
   numOfPushUps (stateOf (trackPushUps powerOn [(1, 0, 5), (5, 0, 1)])) = 0 \<and>
   numOfPushUps (stateOf (trackPushUps powerOn [(5, 0, 1), (1, 0, 5)])) = 1 \<and>
   numOfSquats powerOn \<le> 10 \<and>
   numOfSquats (stateOf (trackSquats powerOn [(0, 1, 2), (0, 2, 1), (0, 1, 2)])) = 2 \<and>
   numOfJumpJacks powerOn \<le> 10 \<and>
   numOfJumpJacks (stateOf (trackJumpJacks powerOn [(- 20, 0, 0), (0, 0, 0), (- 20, 0, 0)])) = 1"
proof -
  have h: "numOfSitUps powerOn = 0" "numOfPushUps powerOn = 0" "numOfSquats powerOn = 0"
    "numOfJumpJacks powerOn = 0"
    by (simp_all add: powerOn_def)
  from C1_counter_monotone_bounded_exact
         [where k = Situps and st = powerOn and ss = "[(1, 5, 0), (5, 1, 0)]"]
    C1_counter_monotone_bounded_exact [where st = powerOn and ss = "[(1, 0, 5), (5, 0, 1)]"]
    C1_counter_monotone_bounded_exact [where st = powerOn and ss = "[(5, 0, 1), (1, 0, 5)]"]
    C1_counter_monotone_bounded_exact
         [where st = powerOn and ss = "[(0, 1, 2), (0, 2, 1), (0, 1, 2)]"]
    C1_counter_monotone_bounded_exact
         [where st = powerOn and ss = "[(- 20, 0, 0), (0, 0, 0), (- 20, 0, 0)]"]
  show ?thesis
    by (simp add: h)
qed

text \<open>
  Claim C4, as stated, fails for the jumping-jack detector. Its loop keeps no phase: every
  tick whose reading has \<open>x \<le> -15\<close> is a jump, whatever the reading before was. Fed the
  reading \<open>(-20, 0, 0)\<close> twice, the detector has counted one repetition; fed the same
  reading a third time, it counts a second one.
\<close>

theorem C4_refeeding_counterexample:
  "numOfJumpJacks (stateOf (trackJumpJacks powerOn [(- 20, 0, 0), (- 20, 0, 0)])) = 1 \<and>
   numOfJumpJacks (stateOf (trackJumpJacks powerOn
      [(- 20, 0, 0), (- 20, 0, 0), (- 20, 0, 0)])) = 2"
  by (simp add: trackJumpJacks_def blinkAnimLed_emit hw_emit jumpJacksBody_eq REPS_def
      powerOn_def)


text \<open>
  Claim C4, amended. For the sit-up, push-up and squat detectors, at any point of any
  session, feeding the reading just fed once more never changes the counter, and a tick
  that leaves the phase variable as it was never counts. For the jumping-jack detector a
  reading with \<open>x > -15\<close> never counts, while every reading with \<open>x \<le> -15\<close> adds a jump
  and counts a repetition whenever the jump counter was odd, so that feeding it again
  counts on every second feeding.
\<close>

theorem C4_refeeding_amended:
  "(k \<noteq> JumpingJacks \<longrightarrow>
      completedReps k (stateOf (track k st (ss @ [s, s]))) =
      completedReps k (stateOf (track k st (ss @ [s])))) \<and>
   (fst (sitUpsBody s isUp st) = isUp \<longrightarrow>
      numOfSitUps (snd (sitUpsBody s isUp st)) = numOfSitUps st) \<and>
   (fst (pushUpsBody s isDown st) = isDown \<longrightarrow>
      numOfPushUps (snd (pushUpsBody s isDown st)) = numOfPushUps st) \<and>
   (fst (squatsBody s isDown st) = isDown \<longrightarrow>
      numOfSquats (snd (squatsBody s isDown st)) = numOfSquats st) \<and>
   (- 15 < x \<longrightarrow>
      numOfJumpJacks (stateOf (trackJumpJacks st (ss @ [(x, y, z)]))) =
      numOfJumpJacks (stateOf (trackJumpJacks st ss))) \<and>
   (x \<le> - 15 \<longrightarrow>
      fst (jumpJacksBody (x, y, z) totalJumps st) = totalJumps + 1 \<and>
      numOfJumpJacks (snd (jumpJacksBody (x, y, z) totalJumps st)) =
        (if odd totalJumps then numOfJumpJacks st + 1 else numOfJumpJacks st))"
proof -
  obtain a b c where s: "s = (a, b, c)" by (cases s)
  have bodies:
    "fst (sitUpsBody s isUp st) = isUp \<longrightarrow>
       numOfSitUps (snd (sitUpsBody s isUp st)) = numOfSitUps st"
    "fst (pushUpsBody s isDown st) = isDown \<longrightarrow>
       numOfPushUps (snd (pushUpsBody s isDown st)) = numOfPushUps st"
    "fst (squatsBody s isDown st) = isDown \<longrightarrow>
       numOfSquats (snd (squatsBody s isDown st)) = numOfSquats st"
    "x \<le> - 15 \<longrightarrow>
       fst (jumpJacksBody (x, y, z) totalJumps st) = totalJumps + 1 \<and>
       numOfJumpJacks (snd (jumpJacksBody (x, y, z) totalJumps st)) =
         (if odd totalJumps then numOfJumpJacks st + 1 else numOfJumpJacks st)"
    by (simp_all add: s sitUpsBody_eq pushUpsBody_eq squatsBody_eq jumpJacksBody_eq)
  from bodies track_refeed [of k st ss s] trackJumpJacks_no_jump [of x st ss y z]
  show ?thesis
    by blast
qed

theorem C4_refeeding_amended_witness:
  "Situps \<noteq> JumpingJacks \<and>
   completedReps Situps (stateOf (track Situps powerOn ([(- 20, 5, 0)] @ [(5, 1, 0), (5, 1, 0)]))) =
   completedReps Situps (stateOf (track Situps powerOn ([(- 20, 5, 0)] @ [(5, 1, 0)]))) \<and>
   (- 15 :: real) < 3 \<and>
   numOfJumpJacks (stateOf (trackJumpJacks powerOn ([(- 20, 5, 0)] @ [(3, 0, 0)]))) =
   numOfJumpJacks (stateOf (trackJumpJacks powerOn [(- 20, 5, 0)]))"
  using C4_refeeding_amended [where k = Situps and st = powerOn and ss = "[(- 20, 5, 0)]"
      and s = "(5, 1, 0)" and x = 3 and y = 0 and z = 0]
  by simp

section \<open>Properties of the session controller\<close>

text \<open>
  Claim C2. \<open>beginTracking st ((x, y, z) # ss)\<close> is a function of the state and of the
  readings, and its choice of branch depends on the first reading and on the flags only:
  \<^item> with \<open>x < y < z\<close> it is the standing loop on the following readings, followed by the
    return to the menu, whatever the flags are; the flags and counters of sit-ups and
    push-ups are then the same at the end as at the start, for every stream;
  \<^item> with \<open>y > z\<close> and \<open>z > x\<close> it is the push-up session followed by the return to the
    menu, and the first calls it makes are the blink in pink that opens that session,
    unless \<open>finishedPushUps\<close> is set; then it returns at once, having made no call but
    the wait and the redraw of the menu and having taken no further reading;
  \<^item> with \<open>x = y = z\<close> it returns at once in the same way: no session is started.
\<close>

theorem C2_classifier:
  "(x < y \<and> y < z \<longrightarrow>
      beginTracking st ((x, y, z) # ss) =
        andThen (standingLoop (readMotion (x, y, z) st) ss) idle \<and>
      routineState Situps (stateOf (beginTracking st ((x, y, z) # ss))) = routineState Situps st \<and>
      routineState Pushups (stateOf (beginTracking st ((x, y, z) # ss))) =
        routineState Pushups st) \<and>
   (z < y \<and> x < z \<longrightarrow>
      beginTracking st ((x, y, z) # ss) =
        (if finishedPushUps st
         then Returned (emit (Delay 500 # menu st) (readMotion (x, y, z) st)) ss
         else andThen (trackPushUps (readMotion (x, y, z) st) ss) idle)) \<and>
   (z < y \<and> x < z \<and> \<not> finishedPushUps st \<longrightarrow>
      (\<exists>cs. trace (stateOf (beginTracking st ((x, y, z) # ss))) = trace st @ blink PINK @ cs)) \<and>
   (x = y \<and> y = z \<longrightarrow>
      beginTracking st ((x, y, z) # ss) =
        Returned (emit (Delay 500 # menu st) (readMotion (x, y, z) st)) ss)"
proof -
  let ?st = "readMotion (x, y, z) st"
  have m: "menu (readMotion s st) = menu st" for s
    by (simp add: menu_def)
  have a: "x < y \<and> y < z \<longrightarrow>
      beginTracking st ((x, y, z) # ss) = andThen (standingLoop ?st ss) idle"
    by (simp add: beginTracking_unfold Let_def del: beginTracking.simps)
  have r: "routineState k (stateOf (andThen (standingLoop ?st ss) idle)) = routineState k st"
    if "k \<noteq> JumpingJacks" "k \<noteq> Squats" for k
    using standingLoop_routine [OF that, of ?st ss]
    by (simp add: routineState_andThen_idle)
  have b: "z < y \<and> x < z \<longrightarrow>
      beginTracking st ((x, y, z) # ss) =
        (if finishedPushUps st then Returned (emit (Delay 500 # menu st) ?st) ss
         else andThen (trackPushUps ?st ss) idle)"
    by (simp add: beginTracking_unfold idle_emit m Let_def del: beginTracking.simps)
  from track_opens_with_blink [of Pushups ?st ss] obtain cs where
    "trace (stateOf (trackPushUps ?st ss)) = trace st @ blink PINK @ cs"
    by auto
  then have "\<exists>cs. trace (stateOf (andThen (trackPushUps ?st ss) idle)) = trace st @ blink PINK @ cs"
    by (simp add: stateOf_andThen idle_emit)
  with b have p: "z < y \<and> x < z \<and> \<not> finishedPushUps st \<longrightarrow>
      (\<exists>cs. trace (stateOf (beginTracking st ((x, y, z) # ss))) = trace st @ blink PINK @ cs)"
    by (simp del: beginTracking.simps)
  have c: "x = y \<and> y = z \<longrightarrow>
      beginTracking st ((x, y, z) # ss) = Returned (emit (Delay 500 # menu st) ?st) ss"
    by (simp add: beginTracking_unfold idle_emit m Let_def del: beginTracking.simps)
  from a r [of Situps] r [of Pushups] b p c show ?thesis
    by (simp del: beginTracking.simps)
qed

theorem C2_classifier_witness:
  "beginTracking powerOn [(1, 2, 3)] =
     andThen (standingLoop (readMotion (1, 2, 3) powerOn) []) idle \<and>
   beginTracking powerOn [(0, 2, 1)] =
     andThen (trackPushUps (readMotion (0, 2, 1) powerOn) []) idle \<and>
   beginTracking powerOn [(1, 1, 1)] =
     Returned (emit (Delay 500 # menu powerOn) (readMotion (1, 1, 1) powerOn)) []"
proof -
  have h: "\<not> finishedPushUps powerOn"
    by (simp add: powerOn_def)
  from C2_classifier [of 1 2 3 powerOn "[]"] C2_classifier [of 0 2 1 powerOn "[]"]
    C2_classifier [of 1 1 1 powerOn "[]"] h
  show ?thesis
    by simp
qed

text \<open>
  Claim C3 says that the controller returns to the menu without a session whenever the
  classification yields nothing to do, in particular when the first reading has
  \<open>x < y < z\<close> and both jumping jacks and squats are finished. The sketch does so for
  finished push-ups and sit-ups and for an undecided reading (see C2), but not in the
  standing case. The run below starts at power-on: the button is
  pressed, the user stands (\<open>x < y < z\<close>) and completes the jumping jacks; the button is
  pressed again, the user stands and completes the squats; the button is pressed a third
  time with the user standing. Both kinds the standing loop can start are now finished,
  neither \<^verbatim>\<open>break\<close> can be reached, and \<^verbatim>\<open>beginTracking\<close> does not return
  whatever readings follow: the sketch never gets back to the menu.
\<close>

theorem C3_failing_run:
  "\<not> hasReturned (sketch [True, True, True]
        (jumpJackSession @ squatSession @ (1, 2, 3) # later))"
proof -
  obtain st where st: "sketch [True, True] (jumpJackSession @ squatSession @ (1, 2, 3) # later)
      = Returned st ((1, 2, 3) # later)" "finishedJumpJacks st" "finishedSquats st"
    using bothSessions_run [of "(1, 2, 3) # later"] by blast
  have "sketch [True, True, True] (jumpJackSession @ squatSession @ (1, 2, 3) # later) =
      runLoop [True] st ((1, 2, 3) # later)"
    using st(1) runLoop_append [of "[True, True]" "[True]"]
    by (simp add: sketch_def)
  with standing_both_finished_blocks [OF st(2,3), of 1 2 3 later]
  show ?thesis
    by (simp split: outcome.splits)
qed

text \<open>
  Claim C5. From a state in which kind \<open>k\<close> is finished, after \<^verbatim>\<open>beginTracking\<close> and
  after any number of passes of \<^verbatim>\<open>loop()\<close>, on any readings and whether or not the
  call has returned: \<open>k\<close> is still finished, its counter has not moved, and no call has
  set a pixel to the colour of \<open>k\<close>, so that neither the opening blink of a session of
  \<open>k\<close>, nor a repetition event of \<open>k\<close>, nor its menu pair has been shown. After
  \<^verbatim>\<open>showMainMenu\<close> the two menu pixels of \<open>k\<close> are off. The last line is what makes
  the colour a faithful sign: a session of \<open>k\<close>, started in any state \<open>st'\<close> on any
  readings, always adds calls in the colour of \<open>k\<close>.
\<close>

theorem C5_finished_is_permanent:
  assumes "finished k st"
  shows "finished k (stateOf (beginTracking st ss)) \<and>
         completedReps k (stateOf (beginTracking st ss)) = completedReps k st \<and>
         filter (paints (colourOf k)) (trace (stateOf (beginTracking st ss))) =
           filter (paints (colourOf k)) (trace st) \<and>
         finished k (stateOf (runLoop polls st ss)) \<and>
         completedReps k (stateOf (runLoop polls st ss)) = completedReps k st \<and>
         filter (paints (colourOf k)) (trace (stateOf (runLoop polls st ss))) =
           filter (paints (colourOf k)) (trace st) \<and>
         list_all (\<lambda>i. pixels (trace (showMainMenu st)) i = 0) (indicatorPair k) \<and>
         filter (paints (colourOf k)) (trace (stateOf (track k st' ss'))) \<noteq>
           filter (paints (colourOf k)) (trace st')"
proof -
  from beginTracking_view [OF assms, of ss] assms
  have a: "finished k (stateOf (beginTracking st ss)) \<and>
         completedReps k (stateOf (beginTracking st ss)) = completedReps k st \<and>
         filter (paints (colourOf k)) (trace (stateOf (beginTracking st ss))) =
           filter (paints (colourOf k)) (trace st)"
    by (simp add: view_def)
  from runLoop_view [OF assms, of polls ss] assms
  have b: "finished k (stateOf (runLoop polls st ss)) \<and>
         completedReps k (stateOf (runLoop polls st ss)) = completedReps k st \<and>
         filter (paints (colourOf k)) (trace (stateOf (runLoop polls st ss))) =
           filter (paints (colourOf k)) (trace st)"
    by (simp add: view_def)
  from assms have c: "list_all (\<lambda>i. pixels (trace (showMainMenu st)) i = 0) (indicatorPair k)"
    by (cases k) (simp_all add: menu_pixels)
  from a b c track_marks_trace [of k st' ss'] show ?thesis by blast
qed

theorem C5_finished_is_permanent_witness:
  "finished Situps (stateOf (sketch [True] situpSession)) \<and>
   finished Situps (stateOf (runLoop [True, True] (stateOf (sketch [True] situpSession))
      situpSession)) \<and>
   completedReps Situps (stateOf (runLoop [True, True] (stateOf (sketch [True] situpSession))
      situpSession)) = completedReps Situps (stateOf (sketch [True] situpSession)) \<and>
   list_all (\<lambda>i. pixels (trace (showMainMenu (stateOf (sketch [True] situpSession)))) i = 0)
     (indicatorPair Situps)"
proof -
  have h: "finished Situps (stateOf (sketch [True] situpSession))"
    using situpSession_run by simp
  from C5_finished_is_permanent [OF h, of situpSession "[True, True]"] h show ?thesis
    by blast
qed

text \<open>
  Claim C9. \<open>sketch polls ss\<close> is the sketch from power-on, through \<^verbatim>\<open>setup()\<close> and one
  pass of \<^verbatim>\<open>loop()\<close> per button poll; when it has returned, control is at the menu
  between two passes. There, for each of the four kinds, the flag is set exactly when the
  counter is 10, and the counter is 0 or 10. The same holds after any passes of
  \<^verbatim>\<open>loop()\<close> from any state in which it holds.
\<close>

theorem C9_idle_invariant:
  "(hasReturned (sketch polls ss) \<longrightarrow> idleInv (stateOf (sketch polls ss))) \<and>
   (idleInv st \<and> hasReturned (runLoop polls st ss) \<longrightarrow> idleInv (stateOf (runLoop polls st ss)))"
  using runLoop_idleInv [OF idleInv_setup, of polls ss] runLoop_idleInv [of st polls ss]
  by (simp add: sketch_def)

theorem C9_idle_invariant_witness:
  "hasReturned (sketch [True] situpSession) \<and>
   idleInv (stateOf (sketch [True] situpSession))"
  using C9_idle_invariant [of "[True]" situpSession] situpSession_run
  by blast

end
